theory Spec2Isabelle
  imports
    Main
    "HOL-Library.Word"
    "HOL-Library.Signed_Division"
    "HOL-Library.Char_ord"
    "HOL-Library.List_Lexorder"
    "HOL-Library.Sublist"
    "HOL-Library.Log_Nat"
    "HOL-Library.Code_Target_Nat"
begin

unbundle bit_operations_syntax

section \<open>Alert entity and the notification policy\<close>

text \<open>
  The definitions of this theory embed the file
  \<^verbatim>\<open>pkg/query-service/rules/alerting.go\<close>, function by function.
\<close>

text \<open>
  Modelled from the spec: \<^verbatim>\<open>model.AlertState\<close> is declared in a package whose source is
  not among the files at hand; the specification (section 4.3) names the states Inactive,
  Pending, Firing and Resolved.  \<^verbatim>\<open>needsSending\<close> only compares the state with
  \<^verbatim>\<open>StatePending\<close>.
\<close>

datatype AlertState = StateInactive | StatePending | StateFiring | StateResolved

subsection \<open>The Go library's \<^verbatim>\<open>time.Time\<close>\<close>

text \<open>
  \<^verbatim>\<open>needsSending\<close> calls three methods of the Go library's \<^verbatim>\<open>time.Time\<close>: \<^verbatim>\<open>After\<close>,
  \<^verbatim>\<open>Add\<close> and \<^verbatim>\<open>Before\<close>.  They are embedded here after the library's source, on the
  library's representation of a time: the struct of the two words \<^verbatim>\<open>wall\<close> (\<^verbatim>\<open>uint64\<close>) and
  \<^verbatim>\<open>ext\<close> (\<^verbatim>\<open>int64\<close>, a 64-bit word read by \<open>sint\<close>) and of the pointer \<^verbatim>\<open>loc\<close> to a
  \<^verbatim>\<open>Location\<close> (\<open>None\<close> is \<^verbatim>\<open>nil\<close>, \<^verbatim>\<open>Local\<close> points to the local one), which \<^verbatim>\<open>Add\<close> keeps
  and the comparisons do not read.

  The top bit of \<^verbatim>\<open>wall\<close> (\<^verbatim>\<open>hasMonotonic\<close>) tells whether the time carries a reading of the
  monotonic clock.  If it does, \<^verbatim>\<open>wall\<close> holds 33 bits of seconds since the year 1885 and
  30 bits of nanoseconds, and \<^verbatim>\<open>ext\<close> is the monotonic reading in nanoseconds.  If it does
  not, \<^verbatim>\<open>ext\<close> is the number of seconds since the year 1 and \<^verbatim>\<open>wall\<close> holds the
  nanoseconds only.

  A \<^verbatim>\<open>time.Duration\<close> is an \<^verbatim>\<open>int64\<close> count of nanoseconds.
\<close>

type_synonym Duration = "64 word"

datatype Location = localLoc | utcLoc

definition Local :: "Location option" where
  "Local = Some localLoc"

record Time =
  wall :: "64 word"
  ext :: "64 word"
  loc :: "Location option"

definition hasMonotonic :: "64 word" where
  "hasMonotonic = push_bit 63 1"

definition nsecMask :: "64 word" where
  "nsecMask = push_bit 30 1 - 1"

definition nsecShift :: nat where
  "nsecShift = 30"

definition secondsPerDay :: "64 word" where
  "secondsPerDay = 86400"

definition wallToInternal :: "64 word" where
  "wallToInternal = (1884 * 365 + 1884 div 4 - 1884 div 100 + 1884 div 400) * secondsPerDay"

definition unixToInternal :: "64 word" where
  "unixToInternal = (1969 * 365 + 1969 div 4 - 1969 div 100 + 1969 div 400) * secondsPerDay"

text \<open>\<^verbatim>\<open>t.nsec()\<close>, an \<^verbatim>\<open>int32\<close>, and \<^verbatim>\<open>t.sec()\<close>, the seconds since the year 1.\<close>

definition Time_nsec :: "Time \<Rightarrow> 32 word" where
  "Time_nsec t = ucast (wall t AND nsecMask)"

definition Time_sec :: "Time \<Rightarrow> 64 word" where
  "Time_sec t =
     (if wall t AND hasMonotonic \<noteq> 0
      then wallToInternal + drop_bit (nsecShift + 1) (push_bit 1 (wall t))
      else ext t)"

text \<open>\<^verbatim>\<open>t.stripMono()\<close> drops the monotonic reading.\<close>

definition stripMono :: "Time \<Rightarrow> Time" where
  "stripMono t =
     (if wall t AND hasMonotonic \<noteq> 0
      then t\<lparr>ext := Time_sec t, wall := wall t AND nsecMask\<rparr>
      else t)"

text \<open>
  \<^verbatim>\<open>t.addSec(d)\<close> adds \<open>d\<close> seconds.  The seconds of a time with a monotonic reading stay
  in the packed field while they fit in its 33 bits; otherwise the reading is dropped.
  The sum \<^verbatim>\<open>t.ext + d\<close> wraps around as an \<^verbatim>\<open>int64\<close> does; the library detects the
  overflow by comparing the wrapped sum with \<^verbatim>\<open>t.ext\<close> and then saturates at
  \<open>2 ^ 63 - 1\<close> or \<open>- (2 ^ 63 - 1)\<close>.  The source reaches this sum on two paths, from
  a time without reading and after \<^verbatim>\<open>stripMono\<close>; since \<^verbatim>\<open>stripMono\<close> leaves a time
  without reading as it is, they are one branch here.
\<close>

definition addSec :: "Time \<Rightarrow> 64 word \<Rightarrow> Time" where
  "addSec t d =
     (let dsec = drop_bit (nsecShift + 1) (push_bit 1 (wall t)) + d
      in if wall t AND hasMonotonic \<noteq> 0 \<and> 0 \<le> sint dsec \<and> sint dsec \<le> 2 ^ 33 - 1
         then t\<lparr>wall := wall t AND nsecMask OR push_bit nsecShift dsec OR hasMonotonic\<rparr>
         else
           (let t' = stripMono t;
                sum = ext t' + d
            in if (sint (ext t') < sint sum) = (0 < sint d) then t'\<lparr>ext := sum\<rparr>
               else if 0 < sint d then t'\<lparr>ext := 2 ^ 63 - 1\<rparr>
               else t'\<lparr>ext := - (2 ^ 63 - 1)\<rparr>))"

text \<open>
  \<^verbatim>\<open>t.Add(d)\<close>.  Go's \<^verbatim>\<open>/\<close> and \<^verbatim>\<open>%\<close> on signed integers truncate towards zero: \<open>sdiv\<close> and
  \<open>smod\<close> on the values read by \<open>sint\<close>.  The nanoseconds are added as \<^verbatim>\<open>int32\<close> values;
  the monotonic reading, if there is one left after \<^verbatim>\<open>addSec\<close>, is advanced by \<open>d\<close>, and
  dropped if that sum overflows.
\<close>

definition Time_Add :: "Time \<Rightarrow> Duration \<Rightarrow> Time" where
  "Time_Add t d =
     (let dsec = word_of_int (sint d sdiv 1000000000) :: 64 word;
          nsec = Time_nsec t + word_of_int (sint d smod 1000000000);
          (dsec, nsec) =
            (if 1000000000 \<le> sint nsec then (dsec + 1, nsec - 1000000000)
             else if sint nsec < 0 then (dsec - 1, nsec + 1000000000)
             else (dsec, nsec));
          t1 = addSec (t\<lparr>wall := wall t AND NOT nsecMask OR scast nsec\<rparr>) dsec
      in if wall t1 AND hasMonotonic \<noteq> 0
         then
           (let te = ext t1 + d
            in if sint d < 0 \<and> sint (ext t1) < sint te \<or> 0 < sint d \<and> sint te < sint (ext t1)
               then stripMono t1
               else t1\<lparr>ext := te\<rparr>)
         else t1)"

text \<open>
  \<^verbatim>\<open>t.After(u)\<close>, \<^verbatim>\<open>t.Before(u)\<close> and \<^verbatim>\<open>t.Equal(u)\<close> compare the monotonic readings when
  both times carry one, and otherwise the seconds and then the nanoseconds of the wall
  clock.  \<^verbatim>\<open>needsSending\<close> does not call \<^verbatim>\<open>Equal\<close>; it serves below to say what ``at
  equality'' means.
\<close>

definition Time_After :: "Time \<Rightarrow> Time \<Rightarrow> bool" where
  "Time_After t u =
     (if wall t AND wall u AND hasMonotonic \<noteq> 0 then sint (ext u) < sint (ext t)
      else sint (Time_sec u) < sint (Time_sec t)
             \<or> Time_sec t = Time_sec u \<and> sint (Time_nsec u) < sint (Time_nsec t))"

definition Time_Before :: "Time \<Rightarrow> Time \<Rightarrow> bool" where
  "Time_Before t u =
     (if wall t AND wall u AND hasMonotonic \<noteq> 0 then sint (ext t) < sint (ext u)
      else sint (Time_sec t) < sint (Time_sec u)
             \<or> Time_sec t = Time_sec u \<and> sint (Time_nsec t) < sint (Time_nsec u))"

definition Time_Equal :: "Time \<Rightarrow> Time \<Rightarrow> bool" where
  "Time_Equal t u =
     (if wall t AND wall u AND hasMonotonic \<noteq> 0 then ext t = ext u
      else Time_sec t = Time_sec u \<and> Time_nsec t = Time_nsec u)"

text \<open>
  \<^verbatim>\<open>time.Unix(sec, nsec)\<close> builds the time that is \<open>sec\<close> seconds and \<open>nsec\<close> nanoseconds
  after the first of January 1970; it carries no monotonic reading.  The sample times
  below are built with it.
\<close>

definition unixTime :: "64 word \<Rightarrow> 32 word \<Rightarrow> Time" where
  "unixTime sec nsec = \<lparr>wall = scast nsec, ext = sec + unixToInternal, loc = Local\<rparr>"

definition Unix :: "64 word \<Rightarrow> 64 word \<Rightarrow> Time" where
  "Unix sec nsec =
     (if sint nsec < 0 \<or> 1000000000 \<le> sint nsec
      then
        (let n = word_of_int (sint nsec sdiv 1000000000) :: 64 word;
             sec = sec + n;
             nsec = nsec - n * 1000000000
         in if sint nsec < 0 then unixTime (sec - 1) (ucast (nsec + 1000000000))
            else unixTime sec (ucast nsec))
      else unixTime sec (ucast nsec))"

subsection \<open>The alert\<close>

text \<open>
  The \<^verbatim>\<open>Alert\<close> struct.  The label sets (\<^verbatim>\<open>labels.BaseLabels\<close>) and the float value are
  opaque here: type parameters \<open>'l\<close> and \<open>'v\<close>.  \<^verbatim>\<open>needsSending\<close> reads three fields of
  its receiver, which is taken to be an alert (not \<^verbatim>\<open>nil\<close>).
\<close>

record ('l, 'v) Alert =
  State :: AlertState
  Labels :: 'l
  Annotations :: 'l
  QueryResultLables :: 'l
  GeneratorURL :: string
  Receivers :: "string list"
  Value :: 'v
  ActiveAt :: Time
  FiredAt :: Time
  ResolvedAt :: Time
  LastSentAt :: Time
  ValidUntil :: Time
  Missing :: bool

definition needsSending :: "('l, 'v) Alert \<Rightarrow> Time \<Rightarrow> Duration \<Rightarrow> bool" where
  "needsSending a ts resendDelay =
     (if State a = StatePending then False
      else if Time_After (ResolvedAt a) (LastSentAt a) then True
      else Time_Before (Time_Add (LastSentAt a) resendDelay) ts)"

section \<open>Enumerated operators\<close>

text \<open>
  \<^verbatim>\<open>CompareOp\<close> and \<^verbatim>\<open>MatchType\<close> are string types in the source: any string can be a
  value, and the named constants are the codes \<^verbatim>\<open>"0"\<close> to \<^verbatim>\<open>"7"\<close> and \<^verbatim>\<open>"0"\<close> to \<^verbatim>\<open>"5"\<close>.
\<close>

type_synonym CompareOp = string

definition CompareOpNone :: CompareOp where "CompareOpNone = ''0''"
definition ValueIsAbove :: CompareOp where "ValueIsAbove = ''1''"
definition ValueIsBelow :: CompareOp where "ValueIsBelow = ''2''"
definition ValueIsEq :: CompareOp where "ValueIsEq = ''3''"
definition ValueIsNotEq :: CompareOp where "ValueIsNotEq = ''4''"
definition ValueAboveOrEq :: CompareOp where "ValueAboveOrEq = ''5''"
definition ValueBelowOrEq :: CompareOp where "ValueBelowOrEq = ''6''"
definition ValueOutsideBounds :: CompareOp where "ValueOutsideBounds = ''7''"

definition supportedCompareOps :: "CompareOp list" where
  "supportedCompareOps =
     [CompareOpNone, ValueIsAbove, ValueIsBelow, ValueIsEq, ValueIsNotEq,
      ValueAboveOrEq, ValueBelowOrEq, ValueOutsideBounds]"

definition CompareOp_String :: "CompareOp \<Rightarrow> string" where
  "CompareOp_String co =
     (if co = CompareOpNone then ''None: Enum value 0''
      else if co = ValueIsAbove then ''ValueIsAbove: Enum value 1''
      else if co = ValueIsBelow then ''ValueIsBelow: Enum value 2''
      else if co = ValueIsEq then ''ValueIsEq: Enum value 3''
      else if co = ValueIsNotEq then ''ValueIsNotEq: Enum value 4''
      else if co = ValueAboveOrEq then ''ValueAboveOrEq: Enum value 5''
      else if co = ValueBelowOrEq then ''ValueBelowOrEq: Enum value 6''
      else if co = ValueOutsideBounds then ''ValueOutsideBounds: Enum value 7''
      else ''Unknown: Enum value'')"

text \<open>
  Errors are values.  The four sentinel errors \<^verbatim>\<open>ErrCompositeQueryRequired\<close>,
  \<^verbatim>\<open>ErrTargetRequired\<close>, \<^verbatim>\<open>ErrCompareOpRequired\<close> and \<^verbatim>\<open>ErrMatchTypeRequired\<close> are
  package variables declared in another file; each is a constructor.  \<open>Errorf\<close> carries
  the text that \<^verbatim>\<open>fmt.Errorf\<close> formats, and \<open>ErrOther\<close> stands for an error produced by
  code outside this file (the nested composite query's own validation).
\<close>

datatype error =
    ErrCompositeQueryRequired
  | ErrTargetRequired
  | ErrCompareOpRequired
  | ErrMatchTypeRequired
  | Errorf string
  | ErrOther string

text \<open>
  The loop \<^verbatim>\<open>for _, op := range supported { msg += op.String() + ", " }\<close>.
\<close>

fun join_descriptions :: "(string \<Rightarrow> string) \<Rightarrow> string list \<Rightarrow> string \<Rightarrow> string" where
  "join_descriptions str [] msg = msg"
| "join_descriptions str (op # ops) msg = join_descriptions str ops (msg @ str op @ '', '')"

text \<open>
  \<^verbatim>\<open>CompareOp.Validate\<close>.  The verb \<^verbatim>\<open>%s\<close> applied to a value with a \<^verbatim>\<open>String\<close> method
  prints the result of that method, so the rejected operator appears through
  \<open>CompareOp_String\<close>.  \<open>None\<close> is the \<^verbatim>\<open>nil\<close> error.
\<close>

definition CompareOp_Validate :: "CompareOp \<Rightarrow> error option" where
  "CompareOp_Validate co =
     (let msg = join_descriptions CompareOp_String supportedCompareOps [] in
      if co \<in> set [ValueIsAbove, ValueIsBelow, ValueIsEq, ValueIsNotEq,
                     ValueAboveOrEq, ValueBelowOrEq, ValueOutsideBounds]
      then None
      else Some (Errorf (''invalid compare op: '' @ CompareOp_String co @
                         '' supported ops are '' @ msg)))"

type_synonym MatchType = string

definition MatchTypeNone :: MatchType where "MatchTypeNone = ''0''"
definition AtleastOnce :: MatchType where "AtleastOnce = ''1''"
definition AllTheTimes :: MatchType where "AllTheTimes = ''2''"
definition OnAverage :: MatchType where "OnAverage = ''3''"
definition InTotal :: MatchType where "InTotal = ''4''"
definition Last :: MatchType where "Last = ''5''"

definition supportedMatchTypes :: "MatchType list" where
  "supportedMatchTypes = [MatchTypeNone, AtleastOnce, AllTheTimes, OnAverage, InTotal, Last]"

definition MatchType_String :: "MatchType \<Rightarrow> string" where
  "MatchType_String mt =
     (if mt = MatchTypeNone then ''None: Enum value 0''
      else if mt = AtleastOnce then ''AtleastOnce: Enum value 1''
      else if mt = AllTheTimes then ''AllTheTimes: Enum value 2''
      else if mt = OnAverage then ''OnAverage: Enum value 3''
      else if mt = InTotal then ''InTotal: Enum value 4''
      else if mt = Last then ''Last: Enum value 5''
      else ''Unknown: Enum value'')"

text \<open>
  \<^verbatim>\<open>MatchType.Validate\<close>: the accepting \<^verbatim>\<open>case\<close> of the source lists \<^verbatim>\<open>MatchTypeNone\<close>
  together with the five other members.
\<close>

definition MatchType_Validate :: "MatchType \<Rightarrow> error option" where
  "MatchType_Validate mt =
     (let msg = join_descriptions MatchType_String supportedMatchTypes [] in
      if mt \<in> set [MatchTypeNone, AtleastOnce, AllTheTimes, OnAverage, InTotal, Last]
      then None
      else Some (Errorf (''invalid match type: '' @ MatchType_String mt @
                         '' supported ops are '' @ msg)))"

section \<open>Rule condition\<close>

text \<open>
  Modelled from the spec: \<^verbatim>\<open>v3.QueryType\<close> and \<^verbatim>\<open>v3.CompositeQuery\<close> are declared in
  the package \<^verbatim>\<open>model/v3\<close>, whose source is not among the files at hand.  The query type
  is a tag; the source names \<^verbatim>\<open>QueryTypeUnknown\<close>, \<^verbatim>\<open>QueryTypeBuilder\<close> and
  \<^verbatim>\<open>QueryTypeClickHouseSQL\<close>, the spec adds the raw query language (PromQL), and
  \<open>QueryTypeOther\<close> stands for any further tag.  Of a composite query the source reads the
  tag and the two maps of named sub-queries.  A Go map is given by the list of its
  entries in the order in which \<^verbatim>\<open>range\<close> happens to visit them (Go leaves the order
  open); the sub-query values are opaque (\<open>'b\<close>, \<open>'c\<close>).
\<close>

datatype QueryType =
    QueryTypeUnknown
  | QueryTypeBuilder
  | QueryTypeClickHouseSQL
  | QueryTypePromQL
  | QueryTypeOther string

record ('b, 'c) CompositeQuery =
  BuilderQueries :: "(string \<times> 'b) list"
  ClickHouseQueries :: "(string \<times> 'c) list"
  CQ_QueryType :: QueryType

text \<open>
  The \<^verbatim>\<open>RuleCondition\<close> struct.  Pointer fields are options (\<open>None\<close> is \<^verbatim>\<open>nil\<close>); the
  target is only tested against \<^verbatim>\<open>nil\<close>, its float is opaque (\<open>'f\<close>).
\<close>

record ('b, 'c, 'f) RuleCondition =
  CompositeQuery :: "('b, 'c) CompositeQuery option"
  CompareOp :: CompareOp
  Target :: "'f option"
  AlertOnAbsent :: bool
  AbsentFor :: "64 word"
  MatchType :: MatchType
  TargetUnit :: string
  Algorithm :: string
  Seasonality :: string
  SelectedQuery :: string
  RequireMinPoints :: bool
  RequiredNumPoints :: int

text \<open>A run-time panic of the Go program is a value too.\<close>

datatype panic = NilPointerDereference | IndexOutOfRange int nat

text \<open>\<^verbatim>\<open>RuleCondition.QueryType\<close>, on a non-nil receiver.\<close>

definition QueryType :: "('b, 'c, 'f) RuleCondition \<Rightarrow> QueryType" where
  "QueryType rc =
     (case CompositeQuery rc of
        Some cq \<Rightarrow> CQ_QueryType cq
      | None \<Rightarrow> QueryTypeUnknown)"

text \<open>
  The set \<^verbatim>\<open>queryNames\<close> (a \<^verbatim>\<open>map[string]struct{}\<close>) is a list without repetitions:
  storing a name that is present changes nothing.
\<close>

fun collect_names :: "(string \<times> 'q) list \<Rightarrow> string list \<Rightarrow> string list" where
  "collect_names [] queryNames = queryNames"
| "collect_names ((name, q) # rest) queryNames = collect_names rest (List.insert name queryNames)"

definition queryNames_of :: "('b, 'c, 'f) RuleCondition \<Rightarrow> string list" where
  "queryNames_of rc =
     (case CompositeQuery rc of
        None \<Rightarrow> []
      | Some cq \<Rightarrow>
          if QueryType rc = QueryTypeBuilder then collect_names (BuilderQueries cq) []
          else if QueryType rc = QueryTypeClickHouseSQL then collect_names (ClickHouseQueries cq) []
          else [])"

text \<open>
  \<^verbatim>\<open>RuleCondition.GetSelectedQueryName\<close>.  The receiver is a pointer: \<open>None\<close> is the nil
  receiver.  \<^verbatim>\<open>sort.Strings\<close> sorts ascending by the byte-wise order of Go strings, which
  is the lexicographic order of \<open>char list\<close>.  The last line indexes
  \<^verbatim>\<open>keys[len(keys)-1]\<close>; an index outside the slice is a run-time panic.
\<close>

definition GetSelectedQueryName :: "('b, 'c, 'f) RuleCondition option \<Rightarrow> panic + string" where
  "GetSelectedQueryName rcp =
     (case rcp of
        None \<Rightarrow> Inr []
      | Some rc \<Rightarrow>
          if SelectedQuery rc \<noteq> [] then Inr (SelectedQuery rc)
          else
            let queryNames = queryNames_of rc in
            if ''F1'' \<in> set queryNames then Inr ''F1''
            else
              let keys = sort queryNames;
                  i = int (length keys) - 1
              in if 0 \<le> i \<and> i < int (length keys) then Inr (keys ! nat i)
                 else Inl (IndexOutOfRange i (length keys)))"

text \<open>
  \<^verbatim>\<open>RuleCondition.Validate\<close>.  \<^verbatim>\<open>CompositeQuery.Validate\<close> belongs to the package
  \<^verbatim>\<open>model/v3\<close>; it is the parameter \<open>cqValidate\<close>.  \<open>builder_checks\<close> is the body of
  \<^verbatim>\<open>if rc.QueryType() == v3.QueryTypeBuilder\<close>: the first failing check returns.  Reading
  a field of a nil receiver is a panic.
\<close>

definition builder_checks :: "('b, 'c, 'f) RuleCondition \<Rightarrow> error option" where
  "builder_checks rc =
     (if Target rc = None then Some ErrTargetRequired
      else if CompareOp rc = [] then Some ErrCompareOpRequired
      else (case CompareOp_Validate (CompareOp rc) of
              Some err \<Rightarrow> Some err
            | None \<Rightarrow>
                if MatchType rc = [] then Some ErrMatchTypeRequired
                else (case MatchType_Validate (MatchType rc) of
                        Some err \<Rightarrow> Some err
                      | None \<Rightarrow> None)))"

definition RuleCondition_Validate ::
  "(('b, 'c) CompositeQuery \<Rightarrow> error option) \<Rightarrow> ('b, 'c, 'f) RuleCondition option
     \<Rightarrow> panic + error option" where
  "RuleCondition_Validate cqValidate rcp =
     (case rcp of
        None \<Rightarrow> Inl NilPointerDereference
      | Some rc \<Rightarrow>
          (case CompositeQuery rc of
             None \<Rightarrow> Inr (Some ErrCompositeQueryRequired)
           | Some cq \<Rightarrow>
               (case (if QueryType rc = QueryTypeBuilder then builder_checks rc else None) of
                  Some err \<Rightarrow> Inr (Some err)
                | None \<Rightarrow> Inr (cqValidate cq))))"

section \<open>Generator URL builder\<close>

subsection \<open>Helpers of the Go library: package \<^verbatim>\<open>strings\<close>\<close>

text \<open>
  Go strings are byte strings; \<open>string\<close> is a list of 8-bit characters.  \<^verbatim>\<open>strings.Index\<close>
  and \<^verbatim>\<open>strings.LastIndex\<close> return the byte offset of the first and of the last occurrence
  of \<open>substr\<close>, and \<open>-1\<close> when there is none.
\<close>

fun Index_from :: "string \<Rightarrow> string \<Rightarrow> nat \<Rightarrow> int" where
  "Index_from substr [] i = (if substr = [] then int i else - 1)"
| "Index_from substr (c # cs) i =
     (if prefix substr (c # cs) then int i else Index_from substr cs (Suc i))"

definition strings_Index :: "string \<Rightarrow> string \<Rightarrow> int" where
  "strings_Index s substr = Index_from substr s 0"

fun LastIndex_from :: "string \<Rightarrow> string \<Rightarrow> nat \<Rightarrow> int" where
  "LastIndex_from substr [] i = (if substr = [] then int i else - 1)"
| "LastIndex_from substr (c # cs) i =
     (let later = LastIndex_from substr cs (Suc i) in
      if 0 \<le> later then later
      else if prefix substr (c # cs) then int i else - 1)"

definition strings_LastIndex :: "string \<Rightarrow> string \<Rightarrow> int" where
  "strings_LastIndex s substr = LastIndex_from substr s 0"

definition strings_Contains :: "string \<Rightarrow> string \<Rightarrow> bool" where
  "strings_Contains s substr = (0 \<le> strings_Index s substr)"

text \<open>\<^verbatim>\<open>strings.Cut\<close>: the text before and after the first \<open>sep\<close>, and whether it occurs.\<close>

definition strings_Cut :: "string \<Rightarrow> string \<Rightarrow> string \<times> string \<times> bool" where
  "strings_Cut s sep =
     (let i = strings_Index s sep in
      if 0 \<le> i then (take (nat i) s, drop (nat i + length sep) s, True)
      else (s, [], False))"

definition is_lower :: "char \<Rightarrow> bool" where
  "is_lower c = (CHR ''a'' \<le> c \<and> c \<le> CHR ''z'')"

definition is_upper :: "char \<Rightarrow> bool" where
  "is_upper c = (CHR ''A'' \<le> c \<and> c \<le> CHR ''Z'')"

definition is_digit :: "char \<Rightarrow> bool" where
  "is_digit c = (CHR ''0'' \<le> c \<and> c \<le> CHR ''9'')"

text \<open>\<^verbatim>\<open>strings.ToLower\<close>, on the ASCII letters (a scheme has no other letters).\<close>

definition to_lower :: "char \<Rightarrow> char" where
  "to_lower c = (if is_upper c then char_of (of_char c + (32::nat)) else c)"

subsection \<open>The Go library's \<^verbatim>\<open>net/url\<close>\<close>

text \<open>
  \<^verbatim>\<open>url.Parse\<close> belongs to Go's standard library.  The definitions below follow its
  steps: the fragment is cut off, control bytes are refused, the scheme is split off,
  the query is cut off, a path that does not start with a slash is opaque (with a scheme)
  or must not have a colon in its first segment (without), an authority after \<^verbatim>\<open>//\<close> is
  split into user information and host, and host, user information, path and fragment
  are unescaped, which refuses malformed percent escapes.  The fields \<^verbatim>\<open>RawPath\<close> and
  \<^verbatim>\<open>RawFragment\<close> (hints for re-encoding) are left out.  Releases of Go differ in how
  strictly they check a bracketed IPv6 literal and further colons in the host; the texts
  evaluated below have neither.  The general theorems about \<^verbatim>\<open>prepareRuleGeneratorURL\<close>
  depend only on whether \<^verbatim>\<open>url.Parse\<close> fails and on the scheme and host it returns.
\<close>

datatype url_error =
    InvalidControlCharacter
  | EmptyURL
  | MissingProtocolScheme
  | InvalidURIForRequest
  | FirstPathSegmentColon
  | EscapeError string
  | InvalidHostError string
  | MissingBracket
  | InvalidPort string
  | InvalidUserinfo

datatype encoding =
    encodePath
  | encodePathSegment
  | encodeHost
  | encodeZone
  | encodeUserPassword
  | encodeQueryComponent
  | encodeFragment

record URL =
  Scheme :: string
  Opaque :: string
  User :: "(string \<times> string option) option"
  Host :: string
  Path :: string
  OmitHost :: bool
  ForceQuery :: bool
  RawQuery :: string
  Fragment :: string

definition stringContainsCTLByte :: "string \<Rightarrow> bool" where
  "stringContainsCTLByte s = list_ex (\<lambda>b. b < CHR '' '' \<or> b = CHR 0x7F) s"

definition ishex :: "char \<Rightarrow> bool" where
  "ishex c = (is_digit c \<or> (CHR ''a'' \<le> c \<and> c \<le> CHR ''f'') \<or> (CHR ''A'' \<le> c \<and> c \<le> CHR ''F''))"

definition unhex :: "char \<Rightarrow> nat" where
  "unhex c =
     (if is_digit c then of_char c - of_char CHR ''0''
      else if CHR ''a'' \<le> c \<and> c \<le> CHR ''f'' then of_char c - of_char CHR ''a'' + 10
      else if CHR ''A'' \<le> c \<and> c \<le> CHR ''F'' then of_char c - of_char CHR ''A'' + 10
      else 0)"

text \<open>
  \<^verbatim>\<open>shouldEscape\<close>, for the mode \<^verbatim>\<open>encodeHost\<close> (the only mode in which \<^verbatim>\<open>unescape\<close>
  asks it).
\<close>

definition shouldEscape_host :: "char \<Rightarrow> bool" where
  "shouldEscape_host c =
     (if is_lower c \<or> is_upper c \<or> is_digit c then False
      else if c \<in> set ''!$&'' \<or> c = CHR 0x27 \<or> c \<in> set ''()*+,;=:[]<>'' \<or> c = CHR 0x22 then False
      else if c \<in> set ''-_.~'' then False
      else True)"

text \<open>
  \<^verbatim>\<open>unescape\<close>: a percent sign must be followed by two hexadecimal digits; in a host an
  escape may only stand for a byte from \<open>0x80\<close> on (or be \<^verbatim>\<open>%25\<close>), and a plain ASCII byte
  of a host or zone must be one that needs no escaping.  The result is the decoded text.
\<close>

fun unescape :: "string \<Rightarrow> encoding \<Rightarrow> url_error + string" where
  "unescape [] mode = Inr []"
| "unescape (c # cs) mode =
     (if c = CHR ''%'' then
        (case cs of
           h1 # h2 # rest \<Rightarrow>
             if \<not> ishex h1 \<or> \<not> ishex h2 then Inl (EscapeError (take 3 (c # cs)))
             else if mode = encodeHost \<and> unhex h1 < 8 \<and> [c, h1, h2] \<noteq> ''%25''
               then Inl (EscapeError [c, h1, h2])
             else if mode = encodeZone \<and> [c, h1, h2] \<noteq> ''%25''
                     \<and> char_of (unhex h1 * 16 + unhex h2) \<noteq> CHR '' ''
                     \<and> shouldEscape_host (char_of (unhex h1 * 16 + unhex h2))
               then Inl (EscapeError [c, h1, h2])
             else (case unescape rest mode of
                     Inl err \<Rightarrow> Inl err
                   | Inr t \<Rightarrow> Inr (char_of (unhex h1 * 16 + unhex h2) # t))
         | _ \<Rightarrow> Inl (EscapeError (take 3 (c # cs))))
      else if c = CHR ''+'' then
        (case unescape cs mode of
           Inl err \<Rightarrow> Inl err
         | Inr t \<Rightarrow> Inr ((if mode = encodeQueryComponent then CHR '' '' else CHR ''+'') # t))
      else if (mode = encodeHost \<or> mode = encodeZone) \<and> of_char c < (0x80::nat)
              \<and> shouldEscape_host c
        then Inl (InvalidHostError [c])
      else (case unescape cs mode of
              Inl err \<Rightarrow> Inl err
            | Inr t \<Rightarrow> Inr (c # t)))"

text \<open>\<^verbatim>\<open>getScheme\<close>: the loop over the bytes of \<open>rawURL\<close>, at index \<open>i\<close> with \<open>rest\<close> to go.\<close>

fun getScheme_loop :: "string \<Rightarrow> nat \<Rightarrow> string \<Rightarrow> url_error + (string \<times> string)" where
  "getScheme_loop rawURL i [] = Inr ([], rawURL)"
| "getScheme_loop rawURL i (c # rest) =
     (if is_lower c \<or> is_upper c then getScheme_loop rawURL (Suc i) rest
      else if is_digit c \<or> c = CHR ''+'' \<or> c = CHR ''-'' \<or> c = CHR ''.'' then
        (if i = 0 then Inr ([], rawURL) else getScheme_loop rawURL (Suc i) rest)
      else if c = CHR '':'' then
        (if i = 0 then Inl MissingProtocolScheme
         else Inr (take i rawURL, drop (Suc i) rawURL))
      else Inr ([], rawURL))"

definition getScheme :: "string \<Rightarrow> url_error + (string \<times> string)" where
  "getScheme rawURL = getScheme_loop rawURL 0 rawURL"

definition validOptionalPort :: "string \<Rightarrow> bool" where
  "validOptionalPort port =
     (case port of
        [] \<Rightarrow> True
      | c # ds \<Rightarrow> c = CHR '':'' \<and> list_all is_digit ds)"

definition validUserinfo :: "string \<Rightarrow> bool" where
  "validUserinfo s =
     list_all (\<lambda>r. is_upper r \<or> is_lower r \<or> is_digit r
                    \<or> r \<in> set ''-._:~!$&'' \<or> r = CHR 0x27 \<or> r \<in> set ''()*+,;=%@'') s"

definition parseHost :: "string \<Rightarrow> url_error + string" where
  "parseHost host =
     (if prefix ''['' host then
        (let i = strings_LastIndex host '']'' in
         if i < 0 then Inl MissingBracket
         else
           let colonPort = drop (nat i + 1) host in
           if \<not> validOptionalPort colonPort then Inl (InvalidPort colonPort)
           else
             let zone = strings_Index (take (nat i) host) ''%25'' in
             if 0 \<le> zone then
               (case unescape (take (nat zone) host) encodeHost of
                  Inl err \<Rightarrow> Inl err
                | Inr host1 \<Rightarrow>
                    (case unescape (drop (nat zone) (take (nat i) host)) encodeZone of
                       Inl err \<Rightarrow> Inl err
                     | Inr host2 \<Rightarrow>
                         (case unescape (drop (nat i) host) encodeHost of
                            Inl err \<Rightarrow> Inl err
                          | Inr host3 \<Rightarrow> Inr (host1 @ host2 @ host3))))
             else unescape host encodeHost)
      else
        (let i = strings_LastIndex host '':'' in
         if i \<noteq> - 1 \<and> \<not> validOptionalPort (drop (nat i) host)
           then Inl (InvalidPort (drop (nat i) host))
         else unescape host encodeHost))"

definition parseAuthority ::
  "string \<Rightarrow> url_error + ((string \<times> string option) option \<times> string)" where
  "parseAuthority authority =
     (let i = strings_LastIndex authority ''@'' in
      case (if i < 0 then parseHost authority else parseHost (drop (nat i + 1) authority)) of
        Inl err \<Rightarrow> Inl err
      | Inr host \<Rightarrow>
          if i < 0 then Inr (None, host)
          else
            let userinfo = take (nat i) authority in
            if \<not> validUserinfo userinfo then Inl InvalidUserinfo
            else if \<not> strings_Contains userinfo '':'' then
              (case unescape userinfo encodeUserPassword of
                 Inl err \<Rightarrow> Inl err
               | Inr username \<Rightarrow> Inr (Some (username, None), host))
            else
              (case strings_Cut userinfo '':'' of
                 (username0, password0, found) \<Rightarrow>
                   (case unescape username0 encodeUserPassword of
                      Inl err \<Rightarrow> Inl err
                    | Inr username \<Rightarrow>
                        (case unescape password0 encodeUserPassword of
                           Inl err \<Rightarrow> Inl err
                         | Inr password \<Rightarrow> Inr (Some (username, Some password), host)))))"

definition empty_URL :: URL where
  "empty_URL =
     \<lparr>Scheme = [], Opaque = [], User = None, Host = [], Path = [], OmitHost = False,
      ForceQuery = False, RawQuery = [], Fragment = []\<rparr>"

text \<open>
  The unexported \<^verbatim>\<open>parse\<close>; \<^verbatim>\<open>url.Parse\<close> calls it with \<open>viaRequest = False\<close>.
\<close>

definition parse_authority_and_path :: "URL \<Rightarrow> bool \<Rightarrow> string \<Rightarrow> url_error + URL" where
  "parse_authority_and_path url viaRequest rest =
     (if (Scheme url \<noteq> [] \<or> \<not> viaRequest \<and> \<not> prefix ''///'' rest) \<and> prefix ''//'' rest then
        (let authority0 = drop 2 rest;
             i = strings_Index authority0 ''/'';
             authority = (if 0 \<le> i then take (nat i) authority0 else authority0);
             rest' = (if 0 \<le> i then drop (nat i) authority0 else [])
         in case parseAuthority authority of
              Inl err \<Rightarrow> Inl err
            | Inr (user, host) \<Rightarrow>
                (case unescape rest' encodePath of
                   Inl err \<Rightarrow> Inl err
                 | Inr path \<Rightarrow> Inr (url\<lparr>User := user, Host := host, Path := path\<rparr>)))
      else
        (case unescape rest encodePath of
           Inl err \<Rightarrow> Inl err
         | Inr path \<Rightarrow>
             Inr (url\<lparr>OmitHost := (Scheme url \<noteq> [] \<and> prefix ''/'' rest), Path := path\<rparr>)))"

definition parse :: "string \<Rightarrow> bool \<Rightarrow> url_error + URL" where
  "parse rawURL viaRequest =
     (if stringContainsCTLByte rawURL then Inl InvalidControlCharacter
      else if rawURL = [] \<and> viaRequest then Inl EmptyURL
      else if rawURL = ''*'' then Inr (empty_URL\<lparr>Path := ''*''\<rparr>)
      else
        (case getScheme rawURL of
           Inl err \<Rightarrow> Inl err
         | Inr (scheme, rest0) \<Rightarrow>
             let force = (suffix ''?'' rest0 \<and> count_list rest0 CHR ''?'' = 1);
                 rest = (if force then butlast rest0 else fst (strings_Cut rest0 ''?''));
                 url = empty_URL\<lparr>Scheme := map to_lower scheme, ForceQuery := force,
                         RawQuery := (if force then [] else fst (snd (strings_Cut rest0 ''?'')))\<rparr>
             in
               if \<not> prefix ''/'' rest \<and> Scheme url \<noteq> [] then Inr (url\<lparr>Opaque := rest\<rparr>)
               else if \<not> prefix ''/'' rest \<and> viaRequest then Inl InvalidURIForRequest
               else if \<not> prefix ''/'' rest \<and> strings_Contains (fst (strings_Cut rest ''/'')) '':''
                 then Inl FirstPathSegmentColon
               else parse_authority_and_path url viaRequest rest))"

definition url_Parse :: "string \<Rightarrow> url_error + URL" where
  "url_Parse rawURL =
     (case strings_Cut rawURL ''#'' of
        (u, frag, found) \<Rightarrow>
          (case parse u False of
             Inl err \<Rightarrow> Inl err
           | Inr url \<Rightarrow>
               if frag = [] then Inr url
               else (case unescape frag encodeFragment of
                       Inl err \<Rightarrow> Inl err
                     | Inr f \<Rightarrow> Inr (url\<lparr>Fragment := f\<rparr>))))"

text \<open>
  \<^verbatim>\<open>splitHostPort\<close>, and the methods \<^verbatim>\<open>Hostname\<close> and \<^verbatim>\<open>Port\<close> that read it.
\<close>

definition splitHostPort :: "string \<Rightarrow> string \<times> string" where
  "splitHostPort hostPort =
     (let colon = strings_LastIndex hostPort '':'';
          split = (colon \<noteq> - 1 \<and> validOptionalPort (drop (nat colon) hostPort));
          host = (if split then take (nat colon) hostPort else hostPort);
          port = (if split then drop (nat colon + 1) hostPort else [])
      in if prefix ''['' host \<and> suffix '']'' host
         then (butlast (tl host), port) else (host, port))"

definition Hostname :: "URL \<Rightarrow> string" where
  "Hostname u = fst (splitHostPort (Host u))"

definition Port :: "URL \<Rightarrow> string" where
  "Port u = snd (splitHostPort (Host u))"

subsection \<open>\<^verbatim>\<open>prepareRuleGeneratorURL\<close>\<close>

text \<open>
  The function of \<^verbatim>\<open>alerting.go\<close>.  \<^verbatim>\<open>fmt.Sprintf\<close> with \<^verbatim>\<open>%s\<close> verbs on strings is
  concatenation; \<^verbatim>\<open>source[0:hasNew]\<close> is the prefix of \<open>hasNew\<close> bytes.
\<close>

definition prepareRuleGeneratorURL :: "string \<Rightarrow> string \<Rightarrow> string" where
  "prepareRuleGeneratorURL ruleId source =
     (if source = [] then source
      else
        (case url_Parse source of
           Inl err \<Rightarrow> []
         | Inr parsedSource \<Rightarrow>
             let hasNew = strings_LastIndex source ''new'' in
             if hasNew > - 1 then take (nat hasNew) source @ ''edit?ruleId='' @ ruleId
             else if Port parsedSource \<noteq> [] then
               Scheme parsedSource @ ''://'' @ Hostname parsedSource @ '':'' @ Port parsedSource
                 @ ''/alerts/edit?ruleId='' @ ruleId
             else
               Scheme parsedSource @ ''://'' @ Hostname parsedSource
                 @ ''/alerts/edit?ruleId='' @ ruleId))"

section \<open>Duration codec\<close>

subsection \<open>The Go library: formatting a \<^verbatim>\<open>time.Duration\<close>\<close>

text \<open>
  The two methods of the codec call \<^verbatim>\<open>Duration.String\<close> and \<^verbatim>\<open>time.ParseDuration\<close> of
  Go's standard library; the definitions follow the library's source, in which
  \<^verbatim>\<open>ParseDuration\<close> sums in a \<^verbatim>\<open>uint64\<close> (the current releases of Go).
  A \<^verbatim>\<open>Duration\<close> is an \<^verbatim>\<open>int64\<close> count of nanoseconds.  The library formats the magnitude
  as a \<^verbatim>\<open>uint64\<close> from the end of a 32-byte buffer towards its start (the longest text has
  25 bytes); the text written so far is the list \<open>buf\<close>, and writing one more byte in
  front is \<open>#\<close>.  The arithmetic on the magnitude (\<^verbatim>\<open>v%10\<close>, \<^verbatim>\<open>v/10\<close>, \<^verbatim>\<open>u%60\<close>,
  \<^verbatim>\<open>u/60\<close>) never overflows and is done on \<open>nat\<close>.
\<close>

definition Nanosecond :: nat where "Nanosecond = 1"
definition Microsecond :: nat where "Microsecond = 1000 * Nanosecond"
definition Millisecond :: nat where "Millisecond = 1000 * Microsecond"
definition Second :: nat where "Second = 1000 * Millisecond"
definition Minute :: nat where "Minute = 60 * Second"
definition Hour :: nat where "Hour = 60 * Minute"

definition digit_char :: "nat \<Rightarrow> char" where
  "digit_char digit = char_of (digit + of_char CHR ''0'')"

text \<open>
  \<^verbatim>\<open>fmtFrac\<close>: the loop runs \<open>prec\<close> times, dropping trailing zeros; the decimal point is
  written when a digit was.
\<close>

fun fmtFrac_loop :: "nat \<Rightarrow> string \<Rightarrow> nat \<Rightarrow> bool \<Rightarrow> string \<times> nat \<times> bool" where
  "fmtFrac_loop 0 buf v print = (buf, v, print)"
| "fmtFrac_loop (Suc n) buf v print =
     (let digit = v mod 10;
          print' = (print \<or> digit \<noteq> 0)
      in fmtFrac_loop n (if print' then digit_char digit # buf else buf) (v div 10) print')"

definition fmtFrac :: "string \<Rightarrow> nat \<Rightarrow> nat \<Rightarrow> string \<times> nat" where
  "fmtFrac buf v prec =
     (case fmtFrac_loop prec buf v False of
        (buf', v', print) \<Rightarrow> (if print then CHR ''.'' # buf' else buf', v'))"

text \<open>\<^verbatim>\<open>fmtInt\<close>: the digits of \<open>v\<close>, and \<open>0\<close> for zero.\<close>

function fmtInt_loop :: "string \<Rightarrow> nat \<Rightarrow> string" where
  "fmtInt_loop buf v =
     (if 0 < v then fmtInt_loop (digit_char (v mod 10) # buf) (v div 10) else buf)"
  by pat_completeness auto
termination
  by (relation "measure (\<lambda>(buf, v). v)") auto

declare fmtInt_loop.simps [simp del]

definition fmtInt :: "string \<Rightarrow> nat \<Rightarrow> string" where
  "fmtInt buf v = (if v = 0 then CHR ''0'' # buf else fmtInt_loop buf v)"

text \<open>
  \<^verbatim>\<open>Duration.String\<close> (through \<^verbatim>\<open>format\<close>).  \<^verbatim>\<open>u := uint64(d); if neg { u = -u }\<close> is
  the negation of the word; the micro sign is the two bytes \<open>0xC2 0xB5\<close>.
\<close>

definition micro_sign :: string where
  "micro_sign = [CHR 0xC2, CHR 0xB5]"

definition Duration_String :: "Duration \<Rightarrow> string" where
  "Duration_String d =
     (let neg = (sint d < 0);
          u = unat (if neg then - d else d)
      in
        if u < Second then
          (if u = 0 then ''0s''
           else
             let prec = (if u < Microsecond then 0 else if u < Millisecond then 3 else 6);
                 buf = (if u < Microsecond then ''ns''
                        else if u < Millisecond then micro_sign @ ''s''
                        else ''ms'');
                 buf' = fmtInt (fst (fmtFrac buf u prec)) (snd (fmtFrac buf u prec))
             in if neg then CHR ''-'' # buf' else buf')
        else
          (let buf1 = fst (fmtFrac ''s'' u 9);
               u1 = snd (fmtFrac ''s'' u 9);
               buf2 = fmtInt buf1 (u1 mod 60);
               u2 = u1 div 60;
               buf3 =
                 (if 0 < u2 then
                    (let buf4 = fmtInt (CHR ''m'' # buf2) (u2 mod 60);
                         u3 = u2 div 60
                     in if 0 < u3 then fmtInt (CHR ''h'' # buf4) u3 else buf4)
                  else buf2)
           in if neg then CHR ''-'' # buf3 else buf3))"

subsection \<open>The Go library: \<^verbatim>\<open>float64\<close> arithmetic\<close>

text \<open>
  \<^verbatim>\<open>ParseDuration\<close> computes the fraction of a unit in \<^verbatim>\<open>float64\<close>.  A finite \<^verbatim>\<open>float64\<close> is
  modelled by the rational number it denotes, and each operation by the exact result
  rounded to the nearest number with a 53-bit significand, ties to even
  (\<open>float64_round\<close>).  All values that occur in \<^verbatim>\<open>ParseDuration\<close> lie between \<open>10\<^sup>-\<^sup>1\<^sup>9\<close>
  and \<open>10\<^sup>3\<^sup>2\<close>, far from the subnormal range and from overflow, which the model leaves
  out.
\<close>

definition pow2 :: "int \<Rightarrow> rat" where
  "pow2 e = (if 0 \<le> e then 2 ^ nat e else 1 / 2 ^ nat (- e))"

text \<open>For \<open>x > 0\<close>, the exponent \<open>e\<close> with \<open>2\<^sup>e \<le> x < 2\<^sup>e\<^sup>+\<^sup>1\<close>.\<close>

definition ilog2 :: "rat \<Rightarrow> int" where
  "ilog2 x =
     (let e0 = bitlen (fst (quotient_of x)) - bitlen (snd (quotient_of x))
      in if pow2 e0 \<le> x then e0 else e0 - 1)"

definition round_half_even :: "rat \<Rightarrow> int" where
  "round_half_even q =
     (let n = \<lfloor>q\<rfloor>; r = q - of_int n
      in if r < 1 / 2 then n
         else if 1 / 2 < r then n + 1
         else if even n then n else n + 1)"

definition float64_round :: "rat \<Rightarrow> rat" where
  "float64_round x =
     (if x = 0 then 0
      else
        let ulp = pow2 (ilog2 \<bar>x\<bar> - 52)
        in sgn x * of_int (round_half_even (\<bar>x\<bar> / ulp)) * ulp)"

subsection \<open>The Go library: \<^verbatim>\<open>time.ParseDuration\<close>\<close>

text \<open>
  The errors of \<^verbatim>\<open>ParseDuration\<close>; each carries the text it quotes.
\<close>

datatype time_error =
    InvalidDurationText string
  | MissingUnit string
  | UnknownUnit string string

text \<open>
  \<^verbatim>\<open>leadingInt\<close>: the leading digits of \<open>s\<close> as a \<^verbatim>\<open>uint64\<close> (arithmetic modulo \<open>2\<^sup>6\<^sup>4\<close>),
  \<open>None\<close> on overflow beyond \<open>2\<^sup>6\<^sup>3\<close>.
\<close>

fun leadingInt_loop :: "nat \<Rightarrow> string \<Rightarrow> (nat \<times> string) option" where
  "leadingInt_loop x [] = Some (x, [])"
| "leadingInt_loop x (c # cs) =
     (if \<not> is_digit c then Some (x, c # cs)
      else if 2 ^ 63 div 10 < x then None
      else
        let x' = (x * 10 + of_char c - of_char CHR ''0'') mod 2 ^ 64
        in if 2 ^ 63 < x' then None else leadingInt_loop x' cs)"

definition leadingInt :: "string \<Rightarrow> (nat \<times> string) option" where
  "leadingInt s = leadingInt_loop 0 s"

text \<open>
  \<^verbatim>\<open>leadingFraction\<close>: the leading digits as a number and the scale \<open>10\<^sup>k\<close> of the \<open>k\<close>
  digits that were taken; digits beyond the capacity are skipped.
\<close>

fun leadingFraction_loop :: "nat \<Rightarrow> rat \<Rightarrow> bool \<Rightarrow> string \<Rightarrow> nat \<times> rat \<times> string" where
  "leadingFraction_loop x scale overflow [] = (x, scale, [])"
| "leadingFraction_loop x scale overflow (c # cs) =
     (if \<not> is_digit c then (x, scale, c # cs)
      else if overflow then leadingFraction_loop x scale overflow cs
      else if (2 ^ 63 - 1) div 10 < x then leadingFraction_loop x scale True cs
      else
        let y = (x * 10 + of_char c - of_char CHR ''0'') mod 2 ^ 64
        in if 2 ^ 63 < y then leadingFraction_loop x scale True cs
           else leadingFraction_loop y (float64_round (scale * 10)) overflow cs)"

definition leadingFraction :: "string \<Rightarrow> nat \<times> rat \<times> string" where
  "leadingFraction s = leadingFraction_loop 0 1 False s"

definition unitMap :: "string \<Rightarrow> nat option" where
  "unitMap u =
     (if u = ''ns'' then Some Nanosecond
      else if u = ''us'' then Some Microsecond
      else if u = micro_sign @ ''s'' then Some Microsecond
      else if u = [CHR 0xCE, CHR 0xBC, CHR ''s''] then Some Microsecond
      else if u = ''ms'' then Some Millisecond
      else if u = ''s'' then Some Second
      else if u = ''m'' then Some Minute
      else if u = ''h'' then Some Hour
      else None)"

text \<open>The bytes of a unit: the scan for the unit stops at a dot or a digit.\<close>

definition unit_char :: "char \<Rightarrow> bool" where
  "unit_char c = (\<not> (c = CHR ''.'' \<or> is_digit c))"

text \<open>
  One round of the loop of \<^verbatim>\<open>ParseDuration\<close>: a number, an optional fraction and a unit
  are taken from the front of \<open>s\<close>, which is not empty (the loop runs while it is not);
  the result is the value \<open>v\<close> in nanoseconds and the rest of the text.  \<open>orig\<close> is the
  whole input (for the error).  The fraction is
  \<^verbatim>\<open>uint64(float64(f) * (float64(unit) / scale))\<close>: three roundings, then the integer
  part (the product is below the unit, far below \<open>2\<^sup>6\<^sup>4\<close>).
\<close>

definition parse_component :: "string \<Rightarrow> string \<Rightarrow> time_error + (nat \<times> string)" where
  "parse_component orig s =
     (if \<not> (hd s = CHR ''.'' \<or> is_digit (hd s)) then Inl (InvalidDurationText orig)
      else
        (case leadingInt s of
           None \<Rightarrow> Inl (InvalidDurationText orig)
         | Some (v, s1) \<Rightarrow>
             let pre = (length s \<noteq> length s1);
                 dot = (s1 \<noteq> [] \<and> hd s1 = CHR ''.'');
                 f = (if dot then fst (leadingFraction (tl s1)) else 0);
                 scale = (if dot then fst (snd (leadingFraction (tl s1))) else 1);
                 s2 = (if dot then snd (snd (leadingFraction (tl s1))) else s1);
                 post = (dot \<and> length (tl s1) \<noteq> length s2);
                 u = takeWhile unit_char s2;
                 s3 = drop (length u) s2
             in
               if \<not> pre \<and> \<not> post then Inl (InvalidDurationText orig)
               else if u = [] then Inl (MissingUnit orig)
               else
                 (case unitMap u of
                    None \<Rightarrow> Inl (UnknownUnit u orig)
                  | Some unit \<Rightarrow>
                      if 2 ^ 63 div unit < v then Inl (InvalidDurationText orig)
                      else
                        let v1 = (v * unit) mod 2 ^ 64;
                            v2 = (if 0 < f then
                                    (v1 + nat \<lfloor>float64_round (float64_round (of_nat f)
                                           * float64_round (of_nat unit / scale))\<rfloor>) mod 2 ^ 64
                                  else v1)
                        in if 0 < f \<and> 2 ^ 63 < v2 then Inl (InvalidDurationText orig)
                           else Inr (v2, s3))))"

lemma leadingInt_loop_length:
  "leadingInt_loop x s = Some (v, r) \<Longrightarrow> length r \<le> length s"
proof (induction s arbitrary: x)
  case Nil
  then show ?case by simp
next
  case (Cons c cs)
  then show ?case
    by (auto simp add: Let_def le_SucI split: if_splits)
qed

lemma leadingFraction_loop_length:
  "length (snd (snd (leadingFraction_loop x scale overflow s))) \<le> length s"
  by (induction x scale overflow s rule: leadingFraction_loop.induct)
    (auto simp add: Let_def le_SucI)

lemma parse_component_shorter:
  assumes "parse_component orig s = Inr (v, s')" and "s \<noteq> []"
  shows "length s' < length s"
proof -
  from assms(1) obtain v0 s1 where li: "leadingInt s = Some (v0, s1)"
    by (auto simp add: parse_component_def split: if_splits option.splits)
  then have l1: "length s1 \<le> length s"
    unfolding leadingInt_def by (rule leadingInt_loop_length)
  define dot where "dot = (s1 \<noteq> [] \<and> hd s1 = CHR ''.'')"
  define s2 where "s2 = (if dot then snd (snd (leadingFraction (tl s1))) else s1)"
  define u where "u = takeWhile unit_char s2"
  have "length (snd (snd (leadingFraction (tl s1)))) \<le> length (tl s1)"
    unfolding leadingFraction_def by (rule leadingFraction_loop_length)
  then have l2: "length s2 \<le> length s1" by (auto simp add: s2_def)
  from assms(1) li have u: "u \<noteq> []" and s': "s' = drop (length u) s2"
    by (auto simp add: parse_component_def Let_def dot_def s2_def u_def
          split: if_splits option.splits)
  have "length u \<le> length s2" unfolding u_def by (rule length_takeWhile_le)
  with u have "length s' < length s2" by (cases u) (simp_all add: s')
  with l1 l2 show ?thesis by simp
qed

text \<open>
  The loop \<^verbatim>\<open>for s != ""\<close> of \<^verbatim>\<open>ParseDuration\<close>: the values of the components are summed
  in \<open>d\<close>, a \<^verbatim>\<open>uint64\<close>, and a sum beyond \<open>2\<^sup>6\<^sup>3\<close> is refused.  Each round leaves a shorter
  text, so the loop ends.
\<close>

function parse_loop :: "string \<Rightarrow> string \<Rightarrow> nat \<Rightarrow> time_error + nat" where
  "parse_loop orig s d =
     (if s = [] then Inr d
      else
        (case parse_component orig s of
           Inl err \<Rightarrow> Inl err
         | Inr (v, s') \<Rightarrow>
             if 2 ^ 63 < (d + v) mod 2 ^ 64 then Inl (InvalidDurationText orig)
             else parse_loop orig s' ((d + v) mod 2 ^ 64)))"
  by pat_completeness auto
termination
proof (relation "measure (\<lambda>(orig, s, d). length s)", goal_cases)
  case 1
  show ?case by simp
next
  case (2 orig s d b x y)
  from 2(2,3) have "parse_component orig s = Inr (x, y)" by simp
  from parse_component_shorter [OF this 2(1)] show ?case by simp
qed

declare parse_loop.simps [simp del]

text \<open>
  \<^verbatim>\<open>time.ParseDuration\<close>: an optional sign, the special text \<open>0\<close>, then the loop.  The sum is
  converted to \<^verbatim>\<open>int64\<close>; with a minus sign it is negated, without one it must be at most
  \<open>2\<^sup>6\<^sup>3 - 1\<close>.
\<close>

definition ParseDuration :: "string \<Rightarrow> time_error + Duration" where
  "ParseDuration orig =
     (let signed = (orig \<noteq> [] \<and> (hd orig = CHR ''-'' \<or> hd orig = CHR ''+''));
          neg = (orig \<noteq> [] \<and> hd orig = CHR ''-'');
          s = (if signed then tl orig else orig)
      in
        if s = ''0'' then Inr 0
        else if s = [] then Inl (InvalidDurationText orig)
        else
          (case parse_loop orig s 0 of
             Inl err \<Rightarrow> Inl err
           | Inr d \<Rightarrow>
               if neg then Inr (- (word_of_nat d))
               else if 2 ^ 63 - 1 < d then Inl (InvalidDurationText orig)
               else Inr (word_of_nat d)))"

subsection \<open>\<^verbatim>\<open>Duration.MarshalJSON\<close> and \<^verbatim>\<open>Duration.UnmarshalJSON\<close>\<close>

text \<open>
  The two methods of \<^verbatim>\<open>alerting.go\<close>.  The package \<^verbatim>\<open>encoding/json\<close> is represented by the
  values it encodes and decodes: what \<^verbatim>\<open>json.Unmarshal\<close> stores in an \<^verbatim>\<open>interface{}\<close> is
  a \<open>json_value\<close> (\<^verbatim>\<open>nil\<close>, \<^verbatim>\<open>bool\<close>, \<^verbatim>\<open>float64\<close>, \<^verbatim>\<open>string\<close>, a slice or a map), and the
  bytes that \<^verbatim>\<open>json.Marshal\<close> writes for a string are the JSON text of that string value.
  A JSON number holds the \<^verbatim>\<open>float64\<close> it was decoded to.
\<close>

datatype json_value =
    JNull
  | JBool bool
  | JNumber rat
  | JString string
  | JArray "json_value list"
  | JObject "(string \<times> json_value) list"

datatype codec_error =
    JSONError string
  | DurationParseError time_error
  | InvalidDuration

definition MarshalJSON :: "Duration \<Rightarrow> json_value" where
  "MarshalJSON d = JString (Duration_String d)"

text \<open>
  The conversion \<^verbatim>\<open>time.Duration(value)\<close> of a \<^verbatim>\<open>float64\<close> drops the fraction.  For a value
  outside the range of \<^verbatim>\<open>int64\<close> Go leaves the result to the implementation: it is the
  parameter \<open>out_of_range\<close>.
\<close>

definition Duration_of_float64 :: "(rat \<Rightarrow> Duration) \<Rightarrow> rat \<Rightarrow> Duration" where
  "Duration_of_float64 out_of_range value =
     (let t = (if 0 \<le> value then \<lfloor>value\<rfloor> else \<lceil>value\<rceil>)
      in if - (2 ^ 63) \<le> t \<and> t < 2 ^ 63 then word_of_int t else out_of_range value)"

text \<open>
  \<^verbatim>\<open>UnmarshalJSON\<close>.  \<open>decoded\<close> is the outcome of \<^verbatim>\<open>json.Unmarshal(b, &v)\<close>: an error, or
  the value stored in \<open>v\<close>.  The result is the error returned, or the duration stored
  through the receiver (which keeps its old value when an error is returned).
\<close>

definition UnmarshalJSON ::
  "(rat \<Rightarrow> Duration) \<Rightarrow> codec_error + json_value \<Rightarrow> codec_error + Duration" where
  "UnmarshalJSON out_of_range decoded =
     (case decoded of
        Inl err \<Rightarrow> Inl err
      | Inr v \<Rightarrow>
          (case v of
             JNumber value \<Rightarrow> Inr (Duration_of_float64 out_of_range value)
           | JString value \<Rightarrow>
               (case ParseDuration value of
                  Inl err \<Rightarrow> Inl (DurationParseError err)
                | Inr tmp \<Rightarrow> Inr tmp)
           | _ \<Rightarrow> Inl InvalidDuration))"

subsection \<open>Notions used in the proofs about the codec\<close>

text \<open>
  The value of a string of decimal digits read from the left, starting from \<open>x\<close>; the
  digits of a positive number; and the text that \<open>fmtInt\<close> writes in front of a buffer.
\<close>

definition digit_val :: "char \<Rightarrow> nat" where
  "digit_val c = of_char c - of_char CHR ''0''"

definition digits_value :: "nat \<Rightarrow> string \<Rightarrow> nat" where
  "digits_value x ds = foldl (\<lambda>a c. a * 10 + digit_val c) x ds"

function decimal :: "nat \<Rightarrow> string" where
  "decimal v = (if 0 < v then decimal (v div 10) @ [digit_char (v mod 10)] else [])"
  by pat_completeness auto
termination
  by (relation "measure (\<lambda>v. v)") auto

declare decimal.simps [simp del]

definition int_text :: "nat \<Rightarrow> string" where
  "int_text v = fmtInt [] v"

text \<open>A text at whose start the scan for digits stops.\<close>

definition stops :: "string \<Rightarrow> bool" where
  "stops rest = (case rest of [] \<Rightarrow> True | c # cs \<Rightarrow> \<not> is_digit c)"

text \<open>
  The digits that \<open>fmtFrac_loop\<close> writes in \<open>n\<close> rounds, and the text of the fraction
  with its decimal point.
\<close>

fun frac_digits :: "nat \<Rightarrow> nat \<Rightarrow> bool \<Rightarrow> string" where
  "frac_digits 0 v print = []"
| "frac_digits (Suc n) v print =
     frac_digits n (v div 10) (print \<or> v mod 10 \<noteq> 0)
       @ (if print \<or> v mod 10 \<noteq> 0 then [digit_char (v mod 10)] else [])"

definition frac_text :: "nat \<Rightarrow> nat \<Rightarrow> string" where
  "frac_text prec v =
     (if v mod 10 ^ prec = 0 then [] else CHR ''.'' # frac_digits prec v False)"

text \<open>
  A unit is a non-empty text without dots and digits; the text after a unit is empty or
  starts the next number.
\<close>

definition unit_text :: "string \<Rightarrow> bool" where
  "unit_text ustr = (ustr \<noteq> [] \<and> list_all unit_char ustr)"

definition starts_number :: "string \<Rightarrow> bool" where
  "starts_number rest = (case rest of [] \<Rightarrow> True | c # cs \<Rightarrow> c = CHR ''.'' \<or> is_digit c)"

text \<open>
  The text of the seconds with their fraction, and the whole text that \<open>Duration_String\<close>
  writes for the magnitude \<open>u\<close>.
\<close>

definition sec_text :: "nat \<Rightarrow> string" where
  "sec_text u = int_text (u div 10 ^ 9 mod 60) @ frac_text 9 u @ ''s''"

definition magnitude_text :: "nat \<Rightarrow> string" where
  "magnitude_text u =
     (if u < 10 ^ 9 then
        (if u = 0 then ''0s''
         else if u < 10 ^ 3 then int_text u @ frac_text 0 u @ ''ns''
         else if u < 10 ^ 6 then int_text (u div 10 ^ 3) @ frac_text 3 u @ micro_sign @ ''s''
         else int_text (u div 10 ^ 6) @ frac_text 6 u @ ''ms'')
      else if u div 10 ^ 9 div 60 = 0 then sec_text u
      else if u div 10 ^ 9 div 60 div 60 = 0 then
        int_text (u div 10 ^ 9 div 60 mod 60) @ ''m'' @ sec_text u
      else
        int_text (u div 10 ^ 9 div 60 div 60) @ ''h''
          @ int_text (u div 10 ^ 9 div 60 mod 60) @ ''m'' @ sec_text u)"

text \<open>The bytes of which the text of a duration consists.\<close>

definition plain_byte :: "char \<Rightarrow> bool" where
  "plain_byte c = (is_digit c \<or> c \<in> set ''.-hmsn'' \<or> c \<in> set micro_sign)"

section \<open>Notions used in the proofs about times\<close>

text \<open>
  A time carries no monotonic reading (\<open>wall_clock\<close>); its nanoseconds are below one
  second, as they are in every time the library builds (\<open>nsec_valid\<close>).
\<close>

definition wall_clock :: "Time \<Rightarrow> bool" where
  "wall_clock t = (wall t AND hasMonotonic = 0)"

definition nsec_valid :: "Time \<Rightarrow> bool" where
  "nsec_valid t = (sint (Time_nsec t) < 1000000000)"

text \<open>
  The instant of a time on the wall clock, in nanoseconds since the year 1, as an
  unbounded integer; and the seconds since 1885 held in the packed field of a time with
  a monotonic reading.
\<close>

definition Time_instant :: "Time \<Rightarrow> int" where
  "Time_instant t = sint (Time_sec t) * 1000000000 + sint (Time_nsec t)"

definition wall_seconds :: "Time \<Rightarrow> int" where
  "wall_seconds t = uint (drop_bit (nsecShift + 1) (push_bit 1 (wall t)))"

text \<open>
  What \<^verbatim>\<open>Add\<close> computes before it calls \<^verbatim>\<open>addSec\<close>, as integers: the carry of the
  nanoseconds, the new nanoseconds and the seconds to add.
\<close>

definition add_carry :: "Time \<Rightarrow> Duration \<Rightarrow> int" where
  "add_carry t d =
     (let m = sint (Time_nsec t) + sint d smod 1000000000
      in if 1000000000 \<le> m then 1 else if m < 0 then - 1 else 0)"

definition add_nsec :: "Time \<Rightarrow> Duration \<Rightarrow> int" where
  "add_nsec t d = sint (Time_nsec t) + sint d smod 1000000000 - add_carry t d * 1000000000"

definition add_dsec :: "Time \<Rightarrow> Duration \<Rightarrow> int" where
  "add_dsec t d = sint d sdiv 1000000000 + add_carry t d"

section \<open>Concrete inputs\<close>

text \<open>Sample values on which the theorems below are instantiated.\<close>

text \<open>
  A time as \<^verbatim>\<open>time.Now()\<close> returns it before the year 2157: the Unix seconds and the
  nanoseconds of the wall clock in the packed field, and a reading of the monotonic clock.
\<close>

definition monotonic_time :: "64 word \<Rightarrow> 64 word \<Rightarrow> 64 word \<Rightarrow> Time" where
  "monotonic_time sec nsec reading =
     \<lparr>wall = hasMonotonic OR push_bit nsecShift (sec + (unixToInternal - wallToInternal)) OR nsec,
      ext = reading, loc = Local\<rparr>"

definition example_alert :: "AlertState \<Rightarrow> Time \<Rightarrow> Time \<Rightarrow> (unit, unit) Alert" where
  "example_alert st resolved sent =
     \<lparr>State = st, Labels = (), Annotations = (), QueryResultLables = (), GeneratorURL = [],
      Receivers = [], Value = (), ActiveAt = Unix 0 0, FiredAt = Unix 0 0, ResolvedAt = resolved,
      LastSentAt = sent, ValidUntil = Unix 0 0, Missing = False\<rparr>"

definition example_query ::
  "QueryType \<Rightarrow> string list \<Rightarrow> string list \<Rightarrow> (unit, unit) CompositeQuery" where
  "example_query qt builder clickhouse =
     \<lparr>BuilderQueries = map (\<lambda>n. (n, ())) builder,
      ClickHouseQueries = map (\<lambda>n. (n, ())) clickhouse,
      CQ_QueryType = qt\<rparr>"

definition example_condition ::
  "(unit, unit) CompositeQuery option \<Rightarrow> unit option \<Rightarrow> CompareOp \<Rightarrow> MatchType \<Rightarrow> string
     \<Rightarrow> (unit, unit, unit) RuleCondition" where
  "example_condition cq target op mt selected =
     \<lparr>CompositeQuery = cq, CompareOp = op, Target = target, AlertOnAbsent = False,
      AbsentFor = 0, MatchType = mt, TargetUnit = [], Algorithm = [], Seasonality = [],
      SelectedQuery = selected, RequireMinPoints = False, RequiredNumPoints = 0\<rparr>"

section \<open>Properties of the notification policy\<close>

subsection \<open>The fields of a time\<close>

lemma nsecMask_mask: "nsecMask = mask 30"
  by (simp add: nsecMask_def mask_eq_exp_minus_1)

lemma hasMonotonic_bit: "(w AND hasMonotonic = 0) = (\<not> bit w 63)" for w :: "64 word"
  unfolding hasMonotonic_def
  using bit_iff_and_push_bit_not_eq_0 [of w 63] by simp

lemma hasMonotonic_bit2:
  "(w AND v AND hasMonotonic = 0) = (\<not> (bit w 63 \<and> bit v 63))" for w v :: "64 word"
  using hasMonotonic_bit [of "w AND v"] by (simp add: bit_simps and.assoc)

lemma wall_clock_bit: "wall_clock t = (\<not> bit (wall t) 63)"
  by (simp add: wall_clock_def hasMonotonic_bit)

lemma sint_Time_nsec: "sint (Time_nsec t) = take_bit 30 (uint (wall t))"
  unfolding Time_nsec_def nsecMask_mask
  apply (simp flip: take_bit_eq_mask)
  apply (simp add: sint_uint signed_take_bit_eq_if_positive bit_simps unsigned_ucast_eq
      unsigned_take_bit_eq)
  done

lemma Time_nsec_bounds: "0 \<le> sint (Time_nsec t)" "sint (Time_nsec t) < 1073741824"
  using take_bit_int_less_exp [of 30 "uint (wall t)"]
  by (simp_all add: sint_Time_nsec)

lemma Time_sec_eq_iff: "(Time_sec t = Time_sec u) = (sint (Time_sec t) = sint (Time_sec u))"
  by (rule word_eq_iff_signed)

lemma Time_instant_wall:
  "\<not> bit (wall t) 63 \<Longrightarrow> Time_instant t = sint (ext t) * 1000000000 + sint (Time_nsec t)"
  by (simp add: Time_instant_def Time_sec_def hasMonotonic_bit)

subsection \<open>Comparing two times\<close>

lemma lex_order:
  fixes a b x y :: int
  assumes "0 \<le> x" "x < 1000000000" "0 \<le> y" "y < 1000000000"
  shows "(a < b \<or> a = b \<and> x < y) = (a * 1000000000 + x < b * 1000000000 + y)"
  using assms by auto

text \<open>
  Unless both times carry a monotonic reading, \<^verbatim>\<open>Before\<close> is the order of the instants
  on the wall clock; if both do, it is the order of the monotonic readings.
\<close>

lemma Time_Before_instant:
  assumes "\<not> (bit (wall t) 63 \<and> bit (wall u) 63)"
    and "sint (Time_nsec t) < 1000000000" "sint (Time_nsec u) < 1000000000"
  shows "Time_Before t u = (Time_instant t < Time_instant u)"
proof -
  have "wall t AND wall u AND hasMonotonic = 0"
    using assms(1) by (simp add: hasMonotonic_bit2)
  then show ?thesis
    using lex_order [OF Time_nsec_bounds(1) assms(2) Time_nsec_bounds(1) assms(3),
        of "sint (Time_sec t)" "sint (Time_sec u)"]
    by (simp add: Time_Before_def Time_instant_def Time_sec_eq_iff)
qed

lemma Time_Before_monotonic:
  "bit (wall t) 63 \<Longrightarrow> bit (wall u) 63 \<Longrightarrow> Time_Before t u = (sint (ext t) < sint (ext u))"
  by (simp add: Time_Before_def hasMonotonic_bit2)

lemma Time_After_Before: "Time_After t u = Time_Before u t"
  by (auto simp add: Time_After_def Time_Before_def hasMonotonic_bit2)

lemma Time_Equal_not_Before: "Time_Equal t u \<Longrightarrow> \<not> Time_Before t u \<and> \<not> Time_Before u t"
  by (auto simp add: Time_Equal_def Time_Before_def hasMonotonic_bit2)

subsection \<open>Arithmetic of 32-bit and 64-bit integers\<close>

lemma divmod_parts:
  fixes k m :: int
  assumes "0 \<le> m" "m < 1000000000"
  shows "(k * 1000000000 + m) div 1000000000 = k" "(k * 1000000000 + m) mod 1000000000 = m"
  using assms by simp_all

lemma duration_parts:
  fixes d :: "64 word"
  defines "q \<equiv> sint d sdiv 1000000000" and "r \<equiv> sint d smod 1000000000"
  shows "q * 1000000000 + r = sint d" "- 1000000000 < r" "r < 1000000000"
    "- 9223372036 \<le> q" "q \<le> 9223372036"
proof -
  show eq: "q * 1000000000 + r = sint d"
    unfolding q_def r_def by (rule sdiv_mult_smod_eq)
  have "r \<in> {- \<bar>1000000000\<bar> + 1..\<bar>1000000000\<bar> - 1}"
    unfolding r_def by (rule smod_int_range) simp
  then show r: "- 1000000000 < r" "r < 1000000000" by simp_all
  have "\<bar>sint d\<bar> \<le> 9223372036854775808"
    using sint_ge [of d] sint_lt [of d] by simp
  then have "\<bar>sint d\<bar> div 1000000000 \<le> 9223372036854775808 div 1000000000"
    by (rule zdiv_mono1) simp
  then have m: "\<bar>sint d\<bar> div 1000000000 \<le> 9223372036" by simp
  have n: "0 \<le> \<bar>sint d\<bar> div 1000000000" by simp
  define a where "a = \<bar>sint d\<bar> div 1000000000"
  have "q = sgn (sint d) * a"
    unfolding q_def a_def signed_divide_int_def by simp
  then show "- 9223372036 \<le> q" "q \<le> 9223372036"
    using m n unfolding a_def [symmetric] by (simp_all add: sgn_if)
qed

lemma sint_word_of_int_64:
  "- 9223372036854775808 \<le> k \<Longrightarrow> k < 9223372036854775808
     \<Longrightarrow> sint (word_of_int k :: 64 word) = k"
  by (simp add: signed_of_int signed_take_bit_int_eq_self)

lemma sint_word_of_int_32:
  "- 2147483648 \<le> k \<Longrightarrow> k < 2147483648 \<Longrightarrow> sint (word_of_int k :: 32 word) = k"
  by (simp add: signed_of_int signed_take_bit_int_eq_self)

lemma sint_add_32:
  fixes a b :: "32 word"
  assumes "- 2147483648 \<le> sint a + sint b" "sint a + sint b < 2147483648"
  shows "sint (a + b) = sint a + sint b"
  using assms by (simp add: sint_word_ariths signed_take_bit_int_eq_self)

lemma sint_diff_32:
  fixes a b :: "32 word"
  assumes "- 2147483648 \<le> sint a - sint b" "sint a - sint b < 2147483648"
  shows "sint (a - b) = sint a - sint b"
  using assms by (simp add: sint_word_ariths signed_take_bit_int_eq_self)

lemma sint_add_64:
  fixes a b :: "64 word"
  assumes "- 9223372036854775808 \<le> sint a + sint b" "sint a + sint b < 9223372036854775808"
  shows "sint (a + b) = sint a + sint b"
  using assms by (simp add: sint_word_ariths signed_take_bit_int_eq_self)

lemma mod_above:
  fixes y :: int
  assumes "n \<le> y" "y < 2 * n"
  shows "y mod n = y - n"
proof -
  have "(y - n) mod n = y - n"
    using assms by (intro mod_pos_pos_trivial) simp_all
  moreover have "(y - n) mod n = y mod n" by simp
  ultimately show ?thesis by simp
qed

lemma mod_below:
  fixes y :: int
  assumes "- n \<le> y" "y < 0"
  shows "y mod n = y + n"
proof -
  have "(y + n) mod n = y + n"
    using assms by (intro mod_pos_pos_trivial) simp_all
  moreover have "(y + n) mod n = y mod n" by simp
  ultimately show ?thesis by simp
qed

text \<open>The sum of two \<^verbatim>\<open>int64\<close> values wraps around when it overflows.\<close>

lemma sint_add_64_over:
  fixes a b :: "64 word"
  assumes "9223372036854775808 \<le> sint a + sint b"
  shows "sint (a + b) = sint a + sint b - 18446744073709551616"
proof -
  have "sint a + sint b < 18446744073709551616"
    using sint_lt [of a] sint_lt [of b] by simp
  then show ?thesis
    using assms mod_above [of 18446744073709551616 "sint a + sint b + 9223372036854775808"]
    by (simp add: sint_word_ariths signed_take_bit_eq_take_bit_shift take_bit_eq_mod)
qed

lemma sint_add_64_under:
  fixes a b :: "64 word"
  assumes "sint a + sint b < - 9223372036854775808"
  shows "sint (a + b) = sint a + sint b + 18446744073709551616"
proof -
  have "- 18446744073709551616 \<le> sint a + sint b"
    using sint_ge [of a] sint_ge [of b] by simp
  then show ?thesis
    using assms mod_below [of 18446744073709551616 "sint a + sint b + 9223372036854775808"]
    by (simp add: sint_word_ariths signed_take_bit_eq_take_bit_shift take_bit_eq_mod)
qed

lemma sint_eq_uint_64:
  fixes w :: "64 word"
  assumes "uint w < 9223372036854775808"
  shows "sint w = uint w"
proof -
  have "(0::int) \<le> uint w" by simp
  then have "- (2 ^ 63) \<le> uint w" by (rule order_trans [rotated]) simp
  moreover have "uint w < 2 ^ 63" using assms by simp
  ultimately have "signed_take_bit 63 (uint w) = uint w"
    by (rule signed_take_bit_int_eq_self)
  then show ?thesis by (simp add: sint_uint)
qed

lemma scast_word_of_int: "(scast w :: 64 word) = word_of_int (sint w)" for w :: "32 word"
  by (simp add: signed_eq_0_iff word_eq_iff_signed signed_scast_eq signed_of_int)

subsection \<open>Writing the nanoseconds into \<^verbatim>\<open>wall\<close>\<close>

lemma int_small_bits:
  fixes k :: int
  assumes "0 \<le> k" "k < 2 ^ n" "bit k j"
  shows "j < n"
proof -
  have "take_bit n k = k" using assms(1,2) by (simp add: take_bit_int_eq_self)
  then have "bit (take_bit n k) j" using assms(3) by simp
  then show ?thesis by (simp add: bit_take_bit_iff)
qed

lemma set_nsec:
  fixes w :: "64 word" and k :: int
  assumes "0 \<le> k" "k < 1073741824"
  defines "w' \<equiv> w AND NOT nsecMask OR word_of_int k"
  shows "bit w' 63 = bit w 63"
    and "take_bit 30 (uint w') = k"
    and "drop_bit 31 (push_bit 1 w') = drop_bit 31 (push_bit 1 w)"
proof -
  have small: "j < 30" if "bit k j" for j
    using int_small_bits [of k 30 j] assms(1,2) that by simp
  have bits: "bit w' j = (if j < 30 then bit k j else bit w j)" for j
    using small [of j]
    by (auto simp add: w'_def nsecMask_mask bit_simps bit_of_int_iff dest: bit_imp_le_length)
  show "bit w' 63 = bit w 63" by (simp add: bits)
  have "take_bit 30 (uint w') = take_bit 30 k"
    by (rule bit_eqI) (auto simp add: bit_simps bit_uint_iff bits)
  then show "take_bit 30 (uint w') = k"
    using assms(1,2) by (simp add: take_bit_int_eq_self)
  have "drop_bit 31 (push_bit (Suc 0) w') = drop_bit 31 (push_bit (Suc 0) w)"
    by (rule bit_eqI) (auto simp add: bit_simps bits simp del: push_bit_Suc)
  then show "drop_bit 31 (push_bit 1 w') = drop_bit 31 (push_bit 1 w)"
    by simp
qed

lemma wall_seconds_bounds: "0 \<le> wall_seconds t" "wall_seconds t < 8589934592"
proof -
  have "uint (drop_bit 31 (push_bit 1 (wall t))) = drop_bit 31 (uint (push_bit 1 (wall t)))"
    by (simp add: unsigned_drop_bit_eq bintr_uint)
  also have "\<dots> = uint (push_bit 1 (wall t)) div 2147483648"
    by (simp add: drop_bit_eq_div)
  finally have eq: "wall_seconds t = uint (push_bit 1 (wall t)) div 2147483648"
    by (simp add: wall_seconds_def nsecShift_def)
  have "uint (push_bit 1 (wall t)) < 18446744073709551616"
    using uint_lt2p [of "push_bit 1 (wall t)"] by simp
  then show "wall_seconds t < 8589934592"
    unfolding eq by simp
  show "0 \<le> wall_seconds t" by (simp add: wall_seconds_def)
qed

subsection \<open>\<^verbatim>\<open>addSec\<close> and \<^verbatim>\<open>Add\<close>\<close>

text \<open>
  On a time without monotonic reading \<^verbatim>\<open>addSec\<close> adds to \<^verbatim>\<open>ext\<close>, and saturates when
  the sum leaves the range of an \<^verbatim>\<open>int64\<close>.
\<close>

lemma addSec_wall:
  fixes t :: Time and d :: "64 word"
  assumes "\<not> bit (wall t) 63"
  defines "s \<equiv> sint (ext t) + sint d"
  shows "addSec t d =
           t\<lparr>ext := (if - 9223372036854775808 \<le> s \<and> s < 9223372036854775808 then ext t + d
                     else if 9223372036854775808 \<le> s then 9223372036854775807
                     else - 9223372036854775807)\<rparr>"
proof -
  have unfold: "addSec t d =
      (if (sint (ext t) < sint (ext t + d)) = (0 < sint d) then t\<lparr>ext := ext t + d\<rparr>
       else if 0 < sint d then t\<lparr>ext := 9223372036854775807\<rparr>
       else t\<lparr>ext := - 9223372036854775807\<rparr>)"
    using assms(1) by (simp add: addSec_def stripMono_def hasMonotonic_bit Let_def)
  have e: "- 9223372036854775808 \<le> sint (ext t)" "sint (ext t) < 9223372036854775808"
    using sint_ge [of "ext t"] sint_lt [of "ext t"] by simp_all
  have dd: "- 9223372036854775808 \<le> sint d" "sint d < 9223372036854775808"
    using sint_ge [of d] sint_lt [of d] by simp_all
  consider (mid) "- 9223372036854775808 \<le> s" "s < 9223372036854775808"
    | (over) "9223372036854775808 \<le> s" | (under) "s < - 9223372036854775808"
    by linarith
  then show ?thesis
  proof cases
    case mid
    then have "sint (ext t + d) = sint (ext t) + sint d"
      unfolding s_def by (intro sint_add_64) simp_all
    then show ?thesis using mid unfolding unfold by simp
  next
    case over
    then have "sint (ext t + d) = sint (ext t) + sint d - 18446744073709551616"
      unfolding s_def by (intro sint_add_64_over) simp_all
    then show ?thesis using over e dd unfolding unfold s_def by simp
  next
    case under
    then have "sint (ext t + d) = sint (ext t) + sint d + 18446744073709551616"
      unfolding s_def by (intro sint_add_64_under) simp_all
    then show ?thesis using under e dd unfolding unfold s_def by simp
  qed
qed

lemma add_nsec_bounds:
  "0 \<le> add_nsec t d" "add_nsec t d < 1073741824"
  "sint (Time_nsec t) < 1000000000 \<Longrightarrow> add_nsec t d < 1000000000"
  using Time_nsec_bounds [of t] duration_parts(2,3) [of d]
  by (simp_all add: add_nsec_def add_carry_def Let_def)

lemma add_dsec_bounds:
  "- 9223372037 \<le> add_dsec t d" "add_dsec t d \<le> 9223372037"
  using duration_parts(4,5) [of d]
  by (simp_all add: add_dsec_def add_carry_def Let_def)

lemma add_parts_sum:
  "add_dsec t d * 1000000000 + add_nsec t d = sint (Time_nsec t) + sint d"
  using duration_parts(1) [of d]
  by (simp add: add_dsec_def add_nsec_def algebra_simps)

text \<open>
  The \<^verbatim>\<open>int32\<close> and \<^verbatim>\<open>int64\<close> computations at the head of \<^verbatim>\<open>Add\<close> do not overflow: they
  yield \<open>add_nsec\<close> and \<open>add_dsec\<close>.
\<close>

lemma Time_Add_unfold:
  "Time_Add t d =
     (let t1 = addSec (t\<lparr>wall := wall t AND NOT nsecMask OR word_of_int (add_nsec t d)\<rparr>)
                 (word_of_int (add_dsec t d))
      in if wall t1 AND hasMonotonic \<noteq> 0
         then
           (let te = ext t1 + d
            in if sint d < 0 \<and> sint (ext t1) < sint te \<or> 0 < sint d \<and> sint te < sint (ext t1)
               then stripMono t1
               else t1\<lparr>ext := te\<rparr>)
         else t1)"
proof -
  define n where "n = sint (Time_nsec t)"
  define r where "r = sint d smod 1000000000"
  define nw where "nw = Time_nsec t + word_of_int r"
  have nb: "0 \<le> n" "n < 1073741824"
    using Time_nsec_bounds [of t] by (simp_all add: n_def)
  have rb: "- 1000000000 < r" "r < 1000000000"
    using duration_parts(2,3) [of d] by (simp_all add: r_def)
  have sr: "sint (word_of_int r :: 32 word) = r"
    using rb by (intro sint_word_of_int_32) simp_all
  have "sint nw = sint (Time_nsec t) + sint (word_of_int r :: 32 word)"
    unfolding nw_def using nb rb sr by (intro sint_add_32) (simp_all add: n_def)
  then have s0: "sint nw = n + r"
    using sr by (simp add: n_def)
  have up: "sint (nw + 1000000000) = n + r + 1000000000" if "n + r < 0"
  proof -
    have "sint (nw + 1000000000) = sint nw + sint (1000000000 :: 32 word)"
      using that nb rb s0 by (intro sint_add_32) simp_all
    then show ?thesis using s0 by simp
  qed
  have down: "sint (nw - 1000000000) = n + r - 1000000000" if "1000000000 \<le> n + r"
  proof -
    have "sint (nw - 1000000000) = sint nw - sint (1000000000 :: 32 word)"
      using that nb rb s0 by (intro sint_diff_32) simp_all
    then show ?thesis using s0 by simp
  qed
  note s0' = s0 [unfolded nw_def n_def r_def]
  consider (carry) "1000000000 \<le> n + r" | (borrow) "n + r < 0"
    | (none) "0 \<le> n + r" "n + r < 1000000000"
    by linarith
  then show ?thesis
  proof cases
    case carry
    note c = carry [unfolded n_def r_def]
    have "(scast (nw - 1000000000) :: 64 word) = word_of_int (n + r - 1000000000)"
      unfolding scast_word_of_int down [OF carry] by (rule refl)
    note sc = this [unfolded nw_def n_def r_def]
    show ?thesis
      using c by (simp add: Time_Add_def Let_def s0' sc add_carry_def add_nsec_def
            add_dsec_def)
  next
    case borrow
    note c = borrow [unfolded n_def r_def]
    have "(scast (nw + 1000000000) :: 64 word) = word_of_int (n + r + 1000000000)"
      unfolding scast_word_of_int up [OF borrow] by (rule refl)
    note sc = this [unfolded nw_def n_def r_def]
    show ?thesis
      using c by (simp add: Time_Add_def Let_def s0' sc add_carry_def add_nsec_def
            add_dsec_def)
  next
    case none
    note c = none [unfolded n_def r_def]
    have "(scast nw :: 64 word) = word_of_int (n + r)"
      unfolding scast_word_of_int s0 by (rule refl)
    note sc = this [unfolded nw_def n_def r_def]
    show ?thesis
      using c by (simp add: Time_Add_def Let_def s0' sc add_carry_def add_nsec_def
            add_dsec_def)
  qed
qed

text \<open>\<^verbatim>\<open>Add\<close> on a time without monotonic reading.\<close>

lemma Time_Add_wall:
  fixes t :: Time and d :: "64 word"
  assumes nm: "\<not> bit (wall t) 63"
  defines "s \<equiv> sint (ext t) + add_dsec t d"
  shows "Time_Add t d =
           t\<lparr>wall := wall t AND NOT nsecMask OR word_of_int (add_nsec t d),
             ext := (if - 9223372036854775808 \<le> s \<and> s < 9223372036854775808 then word_of_int s
                     else if 9223372036854775808 \<le> s then 9223372036854775807
                     else - 9223372036854775807)\<rparr>"
proof -
  define W where "W = wall t AND NOT nsecMask OR word_of_int (add_nsec t d)"
  define dw :: "64 word" where "dw = word_of_int (add_dsec t d)"
  define t0 where "t0 = t\<lparr>wall := W\<rparr>"
  have W63: "\<not> bit W 63"
    unfolding W_def
    using set_nsec(1) [OF add_nsec_bounds(1,2) [of t d], where w = "wall t"] nm by simp
  have sdw: "sint dw = add_dsec t d"
    unfolding dw_def using add_dsec_bounds [of t d] by (intro sint_word_of_int_64) simp_all
  have sum: "ext t + dw = word_of_int s"
    unfolding s_def dw_def by simp
  have t0: "\<not> bit (wall t0) 63" "ext t0 = ext t"
    using W63 by (simp_all add: t0_def)
  have a: "addSec t0 dw =
      t0\<lparr>ext := (if - 9223372036854775808 \<le> s \<and> s < 9223372036854775808 then word_of_int s
                  else if 9223372036854775808 \<le> s then 9223372036854775807
                  else - 9223372036854775807)\<rparr>"
    using addSec_wall [OF t0(1), of dw] unfolding t0(2) sdw sum s_def [symmetric] .
  have w: "wall (addSec t0 dw) AND hasMonotonic = 0"
    unfolding a using W63 by (simp add: hasMonotonic_bit t0_def)
  have "Time_Add t d = addSec t0 dw"
    unfolding Time_Add_unfold W_def [symmetric] dw_def [symmetric] t0_def [symmetric]
    using w by (simp add: Let_def)
  then have "Time_Add t d =
      t0\<lparr>ext := (if - 9223372036854775808 \<le> s \<and> s < 9223372036854775808 then word_of_int s
                  else if 9223372036854775808 \<le> s then 9223372036854775807
                  else - 9223372036854775807)\<rparr>"
    by (simp only: a)
  then show ?thesis
    unfolding t0_def W_def by simp
qed

lemma Time_Add_wall_parts:
  fixes t :: Time and d :: "64 word"
  assumes nm: "\<not> bit (wall t) 63"
  defines "s \<equiv> sint (ext t) + add_dsec t d"
  shows "\<not> bit (wall (Time_Add t d)) 63"
    and "sint (Time_nsec (Time_Add t d)) = add_nsec t d"
    and "sint (Time_sec (Time_Add t d)) =
           (if - 9223372036854775808 \<le> s \<and> s < 9223372036854775808 then s
            else if 9223372036854775808 \<le> s then 9223372036854775807
            else - 9223372036854775807)"
proof -
  note eq = Time_Add_wall [OF nm, of d, folded s_def]
  note sn = set_nsec [OF add_nsec_bounds(1,2) [of t d], where w = "wall t"]
  show m: "\<not> bit (wall (Time_Add t d)) 63"
    unfolding eq using sn(1) nm by simp
  show "sint (Time_nsec (Time_Add t d)) = add_nsec t d"
    unfolding sint_Time_nsec eq using sn(2) by simp
  have "Time_sec (Time_Add t d) = ext (Time_Add t d)"
    using m by (simp add: Time_sec_def hasMonotonic_bit)
  then show "sint (Time_sec (Time_Add t d)) =
           (if - 9223372036854775808 \<le> s \<and> s < 9223372036854775808 then s
            else if 9223372036854775808 \<le> s then 9223372036854775807
            else - 9223372036854775807)"
    unfolding eq by (simp add: sint_word_of_int_64)
qed

text \<open>
  While the sum stays in the range of a time, \<^verbatim>\<open>Add\<close> is the addition of instants on the
  wall clock.
\<close>

lemma Time_Add_instant:
  fixes t :: Time and d :: "64 word"
  assumes nm: "\<not> bit (wall t) 63" and nn: "sint (Time_nsec t) < 1000000000"
    and lo: "- 9223372036854775808000000000 \<le> Time_instant t + sint d"
    and hi: "Time_instant t + sint d < 9223372036854775808000000000"
  shows "Time_instant (Time_Add t d) = Time_instant t + sint d"
    and "\<not> bit (wall (Time_Add t d)) 63"
    and "sint (Time_nsec (Time_Add t d)) < 1000000000"
proof -
  define s where "s = sint (ext t) + add_dsec t d"
  note p = Time_Add_wall_parts [OF nm, of d, folded s_def]
  have nb: "0 \<le> add_nsec t d" "add_nsec t d < 1000000000"
    using add_nsec_bounds(1,3) [of t d] nn by simp_all
  have i: "Time_instant t + sint d = s * 1000000000 + add_nsec t d"
    unfolding Time_instant_wall [OF nm] s_def using add_parts_sum [of t d]
    by (simp add: algebra_simps)
  have "- 9223372036854775808 \<le> s" "s < 9223372036854775808"
    using lo hi nb unfolding i by linarith+
  then have sec: "sint (Time_sec (Time_Add t d)) = s"
    using p(3) by simp
  show "Time_instant (Time_Add t d) = Time_instant t + sint d"
    unfolding i by (simp add: Time_instant_def sec p(2))
  show "\<not> bit (wall (Time_Add t d)) 63" by (rule p(1))
  show "sint (Time_nsec (Time_Add t d)) < 1000000000"
    unfolding p(2) by (rule nb(2))
qed

text \<open>
  Beyond that range \<^verbatim>\<open>Add\<close> saturates: the seconds stop at the last second an \<^verbatim>\<open>int64\<close>
  counts, and the nanoseconds are those of the sum.
\<close>

lemma Time_Add_saturates:
  fixes t :: Time and d :: "64 word"
  assumes nm: "\<not> bit (wall t) 63" and nn: "sint (Time_nsec t) < 1000000000"
  shows "9223372036854775808000000000 \<le> Time_instant t + sint d \<Longrightarrow>
           Time_instant (Time_Add t d)
             = 9223372036854775807000000000 + (Time_instant t + sint d) mod 1000000000"
    and "Time_instant t + sint d < - 9223372036854775808000000000 \<Longrightarrow>
           Time_instant (Time_Add t d)
             = - 9223372036854775807000000000 + (Time_instant t + sint d) mod 1000000000"
proof -
  define s where "s = sint (ext t) + add_dsec t d"
  note p = Time_Add_wall_parts [OF nm, of d, folded s_def]
  have nb: "0 \<le> add_nsec t d" "add_nsec t d < 1000000000"
    using add_nsec_bounds(1,3) [of t d] nn by simp_all
  have i: "Time_instant t + sint d = s * 1000000000 + add_nsec t d"
    unfolding Time_instant_wall [OF nm] s_def using add_parts_sum [of t d]
    by (simp add: algebra_simps)
  have md: "(Time_instant t + sint d) mod 1000000000 = add_nsec t d"
    unfolding i using nb by (rule divmod_parts(2))
  {
    assume "9223372036854775808000000000 \<le> Time_instant t + sint d"
    then have "9223372036854775808 \<le> s" using nb unfolding i by linarith
    then have "sint (Time_sec (Time_Add t d)) = 9223372036854775807"
      using p(3) by simp
    then show "Time_instant (Time_Add t d)
             = 9223372036854775807000000000 + (Time_instant t + sint d) mod 1000000000"
      unfolding md by (simp add: Time_instant_def p(2))
  }
  {
    assume "Time_instant t + sint d < - 9223372036854775808000000000"
    then have "s < - 9223372036854775808" using nb unfolding i by linarith
    then have "sint (Time_sec (Time_Add t d)) = - 9223372036854775807"
      using p(3) by simp
    then show "Time_instant (Time_Add t d)
             = - 9223372036854775807000000000 + (Time_instant t + sint d) mod 1000000000"
      unfolding md by (simp add: Time_instant_def p(2))
  }
qed

text \<open>
  \<^verbatim>\<open>Add\<close> on a time with a monotonic reading: while the seconds fit in the packed field
  and the reading does not overflow, the reading is kept and advanced by \<open>d\<close>.
\<close>

lemma Time_Add_monotonic:
  fixes t :: Time and d :: "64 word"
  assumes m: "bit (wall t) 63"
    and lo: "0 \<le> wall_seconds t + add_dsec t d"
    and hi: "wall_seconds t + add_dsec t d \<le> 8589934591"
    and elo: "- 9223372036854775808 \<le> sint (ext t) + sint d"
    and ehi: "sint (ext t) + sint d < 9223372036854775808"
  shows "bit (wall (Time_Add t d)) 63"
    and "sint (ext (Time_Add t d)) = sint (ext t) + sint d"
proof -
  define W where "W = wall t AND NOT nsecMask OR word_of_int (add_nsec t d)"
  define dw :: "64 word" where "dw = word_of_int (add_dsec t d)"
  define t0 where "t0 = t\<lparr>wall := W\<rparr>"
  define P where "P = drop_bit (nsecShift + 1) (push_bit 1 (wall t))"
  note sn = set_nsec [OF add_nsec_bounds(1,2) [of t d], where w = "wall t", folded W_def]
  have W63: "bit W 63" using sn(1) m by simp
  have PW: "drop_bit (nsecShift + 1) (push_bit 1 W) = P"
    unfolding P_def nsecShift_def using sn(3) by simp
  have uP: "uint P = wall_seconds t" by (simp add: P_def wall_seconds_def)
  have sP: "sint P = wall_seconds t"
    using wall_seconds_bounds [of t] unfolding uP [symmetric] by (intro sint_eq_uint_64) simp
  have sdw: "sint dw = add_dsec t d"
    unfolding dw_def using add_dsec_bounds [of t d] by (intro sint_word_of_int_64) simp_all
  have "sint (P + dw) = sint P + sint dw"
    using lo hi by (intro sint_add_64) (simp_all add: sP sdw)
  then have sPd: "sint (P + dw) = wall_seconds t + add_dsec t d"
    by (simp add: sP sdw)
  define t1 where
    "t1 = t0\<lparr>wall := W AND nsecMask OR push_bit nsecShift (P + dw) OR hasMonotonic\<rparr>"
  have wt0: "wall t0 = W" by (simp add: t0_def)
  have a: "addSec t0 dw = t1"
    unfolding addSec_def wt0 PW using W63 lo hi
    by (simp add: t1_def sPd hasMonotonic_bit Let_def)
  have h63: "bit hasMonotonic 63"
    by (simp add: hasMonotonic_def bit_simps)
  have t1: "bit (wall t1) 63" "ext t1 = ext t"
    using h63 by (simp_all add: t1_def t0_def bit_simps)
  have te: "sint (ext t + d) = sint (ext t) + sint d"
    using elo ehi by (intro sint_add_64) simp_all
  have "Time_Add t d = t1\<lparr>ext := ext t + d\<rparr>"
    unfolding Time_Add_unfold W_def [symmetric] dw_def [symmetric] t0_def [symmetric] a
    using t1 te by (auto simp add: Let_def hasMonotonic_bit)
  then show "bit (wall (Time_Add t d)) 63" "sint (ext (Time_Add t d)) = sint (ext t) + sint d"
    using t1 te by simp_all
qed

lemma Time_instant_monotonic:
  assumes "bit (wall t) 63"
  shows "Time_instant t = (59453308800 + wall_seconds t) * 1000000000 + sint (Time_nsec t)"
proof -
  define P where "P = drop_bit (nsecShift + 1) (push_bit 1 (wall t))"
  have uP: "uint P = wall_seconds t" by (simp add: P_def wall_seconds_def)
  have sP: "sint P = wall_seconds t"
    using wall_seconds_bounds [of t] unfolding uP [symmetric] by (intro sint_eq_uint_64) simp
  have w: "sint wallToInternal = 59453308800"
    by (simp add: wallToInternal_def secondsPerDay_def)
  have "sint (wallToInternal + P) = sint wallToInternal + sint P"
    using wall_seconds_bounds [of t] by (intro sint_add_64) (simp_all add: sP w)
  then have "sint (wallToInternal + P) = 59453308800 + wall_seconds t"
    by (simp only: sP w)
  moreover have "Time_sec t = wallToInternal + P"
    using assms unfolding Time_sec_def P_def by (simp add: hasMonotonic_bit)
  ultimately have "sint (Time_sec t) = 59453308800 + wall_seconds t"
    by simp
  then show ?thesis by (simp add: Time_instant_def)
qed

lemma monotonic_range:
  assumes m: "bit (wall t) 63" and nn: "sint (Time_nsec t) < 1000000000"
    and lo: "59453308800000000000 \<le> Time_instant t + sint d"
    and hi: "Time_instant t + sint d < 68043243392000000000"
  shows "0 \<le> wall_seconds t + add_dsec t d" "wall_seconds t + add_dsec t d \<le> 8589934591"
proof -
  have nb: "0 \<le> add_nsec t d" "add_nsec t d < 1000000000"
    using add_nsec_bounds(1,3) [of t d] nn by simp_all
  define x where "x = wall_seconds t + add_dsec t d"
  have i: "Time_instant t + sint d = 59453308800000000000 + x * 1000000000 + add_nsec t d"
    unfolding Time_instant_monotonic [OF m] x_def using add_parts_sum [of t d]
    by (simp add: algebra_simps)
  have "0 \<le> x" "x \<le> 8589934591"
    using lo hi nb unfolding i by linarith+
  then show "0 \<le> wall_seconds t + add_dsec t d" "wall_seconds t + add_dsec t d \<le> 8589934591"
    by (simp_all add: x_def)
qed

subsection \<open>Evaluating times\<close>

lemmas time_eval =
  Unix_def unixTime_def Local_def unixToInternal_def wallToInternal_def secondsPerDay_def
  Time_Add_def Time_nsec_def Time_sec_def nsecMask_def nsecShift_def hasMonotonic_def
  addSec_def stripMono_def Time_Before_def Time_After_def Time_Equal_def monotonic_time_def
  Time_instant_def wall_clock_def nsec_valid_def signed_divide_int_def signed_modulo_int_def
  Let_def

subsection \<open>\<^verbatim>\<open>needsSending\<close>\<close>

text \<open>
  Claim C1.  For every alert, \<open>needsSending\<close> is false in state Pending whatever the
  timestamps are; otherwise it is true when \<open>ResolvedAt\<close> is strictly after
  \<open>LastSentAt\<close>; otherwise it is true exactly when \<open>LastSentAt + resendDelay\<close> is strictly
  before \<open>now\<close>.  ``After'', ``before'' and the sum are the library's \<^verbatim>\<open>After\<close>,
  \<^verbatim>\<open>Before\<close> and \<^verbatim>\<open>Add\<close>, which the source calls: the first three parts hold for every
  alert, every \<open>now\<close> and every delay, also where \<^verbatim>\<open>Add\<close> saturates.  The last two parts
  read the third case as an inequality of integers.  When \<open>LastSentAt\<close> carries no
  monotonic reading and its sum with the delay stays in the range of a time, the
  instant of \<open>LastSentAt\<close> plus the delay is less than the instant of \<open>now\<close> on the wall
  clock.  When \<open>LastSentAt\<close> and \<open>now\<close> both carry a monotonic reading, the sum stays
  between the years 1885 and 2157 and the reading does not overflow, the reading of
  \<open>LastSentAt\<close> plus the delay is less than the reading of \<open>now\<close>.
\<close>

theorem needsSending_cases:
  "(State a = StatePending \<longrightarrow> \<not> needsSending a now resendDelay) \<and>
   (State a \<noteq> StatePending \<and> Time_After (ResolvedAt a) (LastSentAt a) \<longrightarrow>
      needsSending a now resendDelay) \<and>
   (State a \<noteq> StatePending \<and> \<not> Time_After (ResolvedAt a) (LastSentAt a) \<longrightarrow>
      needsSending a now resendDelay
        = Time_Before (Time_Add (LastSentAt a) resendDelay) now) \<and>
   (State a \<noteq> StatePending \<and> \<not> Time_After (ResolvedAt a) (LastSentAt a) \<and>
    wall_clock (LastSentAt a) \<and> nsec_valid (LastSentAt a) \<and> nsec_valid now \<and>
    - 9223372036854775808000000000 \<le> Time_instant (LastSentAt a) + sint resendDelay \<and>
    Time_instant (LastSentAt a) + sint resendDelay < 9223372036854775808000000000 \<longrightarrow>
      needsSending a now resendDelay
        = (Time_instant (LastSentAt a) + sint resendDelay < Time_instant now)) \<and>
   (State a \<noteq> StatePending \<and> \<not> Time_After (ResolvedAt a) (LastSentAt a) \<and>
    \<not> wall_clock (LastSentAt a) \<and> \<not> wall_clock now \<and> nsec_valid (LastSentAt a) \<and>
    59453308800000000000 \<le> Time_instant (LastSentAt a) + sint resendDelay \<and>
    Time_instant (LastSentAt a) + sint resendDelay < 68043243392000000000 \<and>
    - 9223372036854775808 \<le> sint (ext (LastSentAt a)) + sint resendDelay \<and>
    sint (ext (LastSentAt a)) + sint resendDelay < 9223372036854775808 \<longrightarrow>
      needsSending a now resendDelay
        = (sint (ext (LastSentAt a)) + sint resendDelay < sint (ext now)))"
proof -
  define l where "l = LastSentAt a"
  have pending: "\<not> needsSending a now resendDelay" if "State a = StatePending"
    using that by (simp add: needsSending_def)
  have resolved: "needsSending a now resendDelay"
    if "State a \<noteq> StatePending" "Time_After (ResolvedAt a) (LastSentAt a)"
    using that by (simp add: needsSending_def)
  have third: "needsSending a now resendDelay = Time_Before (Time_Add l resendDelay) now"
    if "State a \<noteq> StatePending" "\<not> Time_After (ResolvedAt a) (LastSentAt a)"
    using that by (simp add: needsSending_def l_def)
  have line: "Time_Before (Time_Add l resendDelay) now
                = (Time_instant l + sint resendDelay < Time_instant now)"
    if "wall_clock l" "nsec_valid l" "nsec_valid now"
      "- 9223372036854775808000000000 \<le> Time_instant l + sint resendDelay"
      "Time_instant l + sint resendDelay < 9223372036854775808000000000"
  proof -
    have nm: "\<not> bit (wall l) 63" using that(1) by (simp add: wall_clock_bit)
    have nn: "sint (Time_nsec l) < 1000000000" using that(2) by (simp add: nsec_valid_def)
    have nw: "sint (Time_nsec now) < 1000000000" using that(3) by (simp add: nsec_valid_def)
    note s = Time_Add_instant [OF nm nn that(4,5)]
    have "Time_Before (Time_Add l resendDelay) now
            = (Time_instant (Time_Add l resendDelay) < Time_instant now)"
      using s(2) by (intro Time_Before_instant s(3) nw) simp
    then show ?thesis by (simp only: s(1))
  qed
  have mono: "Time_Before (Time_Add l resendDelay) now
                = (sint (ext l) + sint resendDelay < sint (ext now))"
    if "\<not> wall_clock l" "\<not> wall_clock now" "nsec_valid l"
      "59453308800000000000 \<le> Time_instant l + sint resendDelay"
      "Time_instant l + sint resendDelay < 68043243392000000000"
      "- 9223372036854775808 \<le> sint (ext l) + sint resendDelay"
      "sint (ext l) + sint resendDelay < 9223372036854775808"
  proof -
    have m: "bit (wall l) 63" using that(1) by (simp add: wall_clock_bit)
    have mn: "bit (wall now) 63" using that(2) by (simp add: wall_clock_bit)
    have nn: "sint (Time_nsec l) < 1000000000" using that(3) by (simp add: nsec_valid_def)
    note r = monotonic_range [OF m nn that(4,5)]
    note s = Time_Add_monotonic [OF m r that(6,7)]
    show ?thesis
      by (simp only: Time_Before_monotonic [OF s(1) mn] s(2))
  qed
  show ?thesis
    using pending resolved third line mono unfolding l_def by simp
qed

theorem needsSending_cases_witness:
  "\<not> needsSending (example_alert StatePending (Unix 200 0) (Unix 100 0))
       (Unix 1000 0) 10000000000 \<and>
   needsSending (example_alert StateFiring (Unix 200 0) (Unix 100 0))
       (Unix 105 0) 10000000000 \<and>
   Time_instant (Unix 100 0) + sint (10000000000 :: 64 word) < Time_instant (Unix 110 1) \<and>
   needsSending (example_alert StateFiring (Unix 50 0) (Unix 100 0))
       (Unix 110 1) 10000000000 \<and>
   \<not> Time_instant (Unix 100 0) + sint (10000000000 :: 64 word)
       < Time_instant (Unix 109 999999999) \<and>
   \<not> needsSending (example_alert StateFiring (Unix 50 0) (Unix 100 0))
       (Unix 109 999999999) 10000000000 \<and>
   Time_Add (Unix 9223371974719179002 0) 10000000000 = Unix 9223371974719179007 0 \<and>
   needsSending (example_alert StateFiring (Unix 50 0) (Unix 9223371974719179002 0))
       (Unix 9223371974719179007 5) 10000000000 \<and>
   \<not> needsSending (example_alert StateFiring (Unix 50 0) (Unix 9223371974719179002 0))
       (Unix 9223371974719179007 0) 10000000000 \<and>
   needsSending (example_alert StateFiring (Unix 50 0) (monotonic_time 1700000000 5 1000))
       (monotonic_time 1699999999 5 10000001001) 10000000000 \<and>
   \<not> needsSending (example_alert StateFiring (Unix 50 0) (monotonic_time 1700000000 5 1000))
       (monotonic_time 1700000020 5 10000001000) 10000000000"
proof -
  have pending:
    "\<not> needsSending (example_alert StatePending (Unix 200 0) (Unix 100 0))
         (Unix 1000 0) 10000000000"
    using needsSending_cases [where a = "example_alert StatePending (Unix 200 0) (Unix 100 0)"
        and now = "Unix 1000 0" and resendDelay = 10000000000]
    by (simp add: example_alert_def)
  have resolved:
    "needsSending (example_alert StateFiring (Unix 200 0) (Unix 100 0))
       (Unix 105 0) 10000000000"
    using needsSending_cases [where a = "example_alert StateFiring (Unix 200 0) (Unix 100 0)"
        and now = "Unix 105 0" and resendDelay = 10000000000]
    by (simp add: example_alert_def time_eval)
  have later:
    "Time_instant (Unix 100 0) + sint (10000000000 :: 64 word) < Time_instant (Unix 110 1) \<and>
     needsSending (example_alert StateFiring (Unix 50 0) (Unix 100 0))
       (Unix 110 1) 10000000000"
    using needsSending_cases [where a = "example_alert StateFiring (Unix 50 0) (Unix 100 0)"
        and now = "Unix 110 1" and resendDelay = 10000000000]
    by (simp add: example_alert_def time_eval)
  have earlier:
    "\<not> Time_instant (Unix 100 0) + sint (10000000000 :: 64 word)
         < Time_instant (Unix 109 999999999) \<and>
     \<not> needsSending (example_alert StateFiring (Unix 50 0) (Unix 100 0))
         (Unix 109 999999999) 10000000000"
    using needsSending_cases [where a = "example_alert StateFiring (Unix 50 0) (Unix 100 0)"
        and now = "Unix 109 999999999" and resendDelay = 10000000000]
    by (simp add: example_alert_def time_eval)
  have saturated:
    "Time_Add (Unix 9223371974719179002 0) 10000000000 = Unix 9223371974719179007 0"
    by (simp add: time_eval)
  have at_the_end:
    "needsSending (example_alert StateFiring (Unix 50 0) (Unix 9223371974719179002 0))
       (Unix 9223371974719179007 5) 10000000000"
    using needsSending_cases [where
        a = "example_alert StateFiring (Unix 50 0) (Unix 9223371974719179002 0)"
        and now = "Unix 9223371974719179007 5" and resendDelay = 10000000000]
    by (simp add: example_alert_def time_eval)
  have at_the_end':
    "\<not> needsSending (example_alert StateFiring (Unix 50 0) (Unix 9223371974719179002 0))
         (Unix 9223371974719179007 0) 10000000000"
    using needsSending_cases [where
        a = "example_alert StateFiring (Unix 50 0) (Unix 9223371974719179002 0)"
        and now = "Unix 9223371974719179007 0" and resendDelay = 10000000000]
    by (simp add: example_alert_def time_eval)
  have monotonic:
    "needsSending (example_alert StateFiring (Unix 50 0) (monotonic_time 1700000000 5 1000))
       (monotonic_time 1699999999 5 10000001001) 10000000000"
    using needsSending_cases [where
        a = "example_alert StateFiring (Unix 50 0) (monotonic_time 1700000000 5 1000)"
        and now = "monotonic_time 1699999999 5 10000001001" and resendDelay = 10000000000]
    by (simp add: example_alert_def time_eval)
  have monotonic':
    "\<not> needsSending (example_alert StateFiring (Unix 50 0) (monotonic_time 1700000000 5 1000))
         (monotonic_time 1700000020 5 10000001000) 10000000000"
    using needsSending_cases [where
        a = "example_alert StateFiring (Unix 50 0) (monotonic_time 1700000000 5 1000)"
        and now = "monotonic_time 1700000020 5 10000001000" and resendDelay = 10000000000]
    by (simp add: example_alert_def time_eval)
  show ?thesis
    using pending resolved later earlier saturated at_the_end at_the_end' monotonic monotonic'
    by blast
qed

text \<open>
  Claim C2 says that a firing alert whose resolution is not newer than the last send is
  sent whenever \<open>now \<ge> LastSentAt + resendDelay\<close>, also at equality.  The source compares
  with \<^verbatim>\<open>Before\<close>, which is strict: at \<open>now = LastSentAt + resendDelay\<close> nothing is sent.
  The alert below was last sent 100 seconds after the first of January 1970, the delay is
  10 seconds and \<open>now\<close> is 110 seconds after that day.
\<close>

theorem needsSending_at_equality_counterexample:
  "State (example_alert StateFiring (Unix 50 0) (Unix 100 0)) = StateFiring \<and>
   \<not> Time_After (ResolvedAt (example_alert StateFiring (Unix 50 0) (Unix 100 0)))
        (LastSentAt (example_alert StateFiring (Unix 50 0) (Unix 100 0))) \<and>
   Time_Equal (Unix 110 0)
     (Time_Add (LastSentAt (example_alert StateFiring (Unix 50 0) (Unix 100 0))) 10000000000) \<and>
   Time_instant (Unix 110 0)
     = Time_instant (LastSentAt (example_alert StateFiring (Unix 50 0) (Unix 100 0)))
         + sint (10000000000 :: 64 word) \<and>
   \<not> needsSending (example_alert StateFiring (Unix 50 0) (Unix 100 0)) (Unix 110 0) 10000000000"
  by (simp add: example_alert_def needsSending_def time_eval)

text \<open>
  Claim C2, amended.  For every alert in state Firing with \<open>ResolvedAt\<close> not after
  \<open>LastSentAt\<close>, \<open>needsSending\<close> is true exactly when \<open>now\<close> is strictly after
  \<open>LastSentAt + resendDelay\<close> (the library's \<^verbatim>\<open>After\<close> and \<^verbatim>\<open>Add\<close>), and false
  otherwise, in particular when the two are equal (the library's \<^verbatim>\<open>Equal\<close>).  When
  \<open>LastSentAt\<close> carries no monotonic reading and its sum with the delay stays in the range
  of a time, that is: true exactly when the instant of \<open>now\<close> is greater than the instant
  of \<open>LastSentAt\<close> plus the delay.
\<close>

theorem needsSending_firing_resend:
  "State a = StateFiring \<Longrightarrow> \<not> Time_After (ResolvedAt a) (LastSentAt a) \<Longrightarrow>
     needsSending a now resendDelay = Time_After now (Time_Add (LastSentAt a) resendDelay) \<and>
     (Time_Equal now (Time_Add (LastSentAt a) resendDelay) \<longrightarrow>
        \<not> needsSending a now resendDelay) \<and>
     (wall_clock (LastSentAt a) \<and> nsec_valid (LastSentAt a) \<and> nsec_valid now \<and>
      - 9223372036854775808000000000 \<le> Time_instant (LastSentAt a) + sint resendDelay \<and>
      Time_instant (LastSentAt a) + sint resendDelay < 9223372036854775808000000000 \<longrightarrow>
        needsSending a now resendDelay
          = (Time_instant now > Time_instant (LastSentAt a) + sint resendDelay))"
proof -
  assume st: "State a = StateFiring" and res: "\<not> Time_After (ResolvedAt a) (LastSentAt a)"
  define l where "l = LastSentAt a"
  have eq: "needsSending a now resendDelay = Time_Before (Time_Add l resendDelay) now"
    using st res by (simp add: needsSending_def l_def)
  have after: "needsSending a now resendDelay = Time_After now (Time_Add l resendDelay)"
    unfolding eq by (simp only: Time_After_Before)
  have equal: "\<not> needsSending a now resendDelay" if "Time_Equal now (Time_Add l resendDelay)"
    unfolding eq using Time_Equal_not_Before [OF that] by simp
  have line: "needsSending a now resendDelay
                = (Time_instant now > Time_instant l + sint resendDelay)"
    if "wall_clock l" "nsec_valid l" "nsec_valid now"
      "- 9223372036854775808000000000 \<le> Time_instant l + sint resendDelay"
      "Time_instant l + sint resendDelay < 9223372036854775808000000000"
  proof -
    have nm: "\<not> bit (wall l) 63" using that(1) by (simp add: wall_clock_bit)
    have nn: "sint (Time_nsec l) < 1000000000" using that(2) by (simp add: nsec_valid_def)
    have nw: "sint (Time_nsec now) < 1000000000" using that(3) by (simp add: nsec_valid_def)
    note s = Time_Add_instant [OF nm nn that(4,5)]
    have "Time_Before (Time_Add l resendDelay) now
            = (Time_instant (Time_Add l resendDelay) < Time_instant now)"
      using s(2) by (intro Time_Before_instant s(3) nw) simp
    then show ?thesis unfolding eq by (simp only: s(1))
  qed
  show ?thesis
    using after equal line unfolding l_def by simp
qed

theorem needsSending_firing_resend_witness:
  "Time_instant (Unix 111 0) > Time_instant (Unix 100 0) + sint (10000000000 :: 64 word) \<and>
   needsSending (example_alert StateFiring (Unix 50 0) (Unix 100 0)) (Unix 111 0) 10000000000 \<and>
   Time_Equal (Unix 110 0) (Time_Add (Unix 100 0) 10000000000) \<and>
   \<not> needsSending (example_alert StateFiring (Unix 50 0) (Unix 100 0)) (Unix 110 0) 10000000000 \<and>
   \<not> needsSending (example_alert StateFiring (Unix 50 0) (monotonic_time 1700000000 5 1000))
       (monotonic_time 1700000020 5 10000001000) 10000000000"
proof -
  have later:
    "Time_instant (Unix 111 0) > Time_instant (Unix 100 0) + sint (10000000000 :: 64 word) \<and>
     needsSending (example_alert StateFiring (Unix 50 0) (Unix 100 0)) (Unix 111 0) 10000000000"
    using needsSending_firing_resend [where
        a = "example_alert StateFiring (Unix 50 0) (Unix 100 0)"
        and now = "Unix 111 0" and resendDelay = 10000000000]
    by (simp add: example_alert_def time_eval)
  have equal:
    "Time_Equal (Unix 110 0) (Time_Add (Unix 100 0) 10000000000) \<and>
     \<not> needsSending (example_alert StateFiring (Unix 50 0) (Unix 100 0))
         (Unix 110 0) 10000000000"
    using needsSending_firing_resend [where
        a = "example_alert StateFiring (Unix 50 0) (Unix 100 0)"
        and now = "Unix 110 0" and resendDelay = 10000000000]
    by (simp add: example_alert_def time_eval)
  have monotonic:
    "\<not> needsSending (example_alert StateFiring (Unix 50 0) (monotonic_time 1700000000 5 1000))
         (monotonic_time 1700000020 5 10000001000) 10000000000"
    using needsSending_firing_resend [where
        a = "example_alert StateFiring (Unix 50 0) (monotonic_time 1700000000 5 1000)"
        and now = "monotonic_time 1700000020 5 10000001000" and resendDelay = 10000000000]
    by (simp add: example_alert_def time_eval)
  show ?thesis
    using later equal monotonic by blast
qed

section \<open>Properties of the enumerated operators\<close>

lemmas CompareOp_codes =
  CompareOpNone_def ValueIsAbove_def ValueIsBelow_def ValueIsEq_def ValueIsNotEq_def
  ValueAboveOrEq_def ValueBelowOrEq_def ValueOutsideBounds_def

lemmas MatchType_codes =
  MatchTypeNone_def AtleastOnce_def AllTheTimes_def OnAverage_def InTotal_def Last_def

lemma supportedCompareOps_msg:
  "join_descriptions CompareOp_String supportedCompareOps [] =
     ''None: Enum value 0, ValueIsAbove: Enum value 1, ValueIsBelow: Enum value 2, '' @
     ''ValueIsEq: Enum value 3, ValueIsNotEq: Enum value 4, ValueAboveOrEq: Enum value 5, '' @
     ''ValueBelowOrEq: Enum value 6, ValueOutsideBounds: Enum value 7, ''"
  by (simp add: supportedCompareOps_def CompareOp_String_def CompareOp_codes)

lemma supportedMatchTypes_msg:
  "join_descriptions MatchType_String supportedMatchTypes [] =
     ''None: Enum value 0, AtleastOnce: Enum value 1, AllTheTimes: Enum value 2, '' @
     ''OnAverage: Enum value 3, InTotal: Enum value 4, Last: Enum value 5, ''"
  by (simp add: supportedMatchTypes_def MatchType_String_def MatchType_codes)

text \<open>
  Claim C6.  \<open>CompareOp_Validate\<close> succeeds exactly for the codes \<open>1\<close> to \<open>7\<close>; for every other
  string, \<^verbatim>\<open>CompareOpNone\<close> (\<open>0\<close>) among them, it returns an error whose text names the
  rejected value and lists the supported values with their descriptions.
\<close>

theorem CompareOp_Validate_spec:
  "CompareOp_Validate co =
     (if co \<in> {''1'', ''2'', ''3'', ''4'', ''5'', ''6'', ''7''} then None
      else Some (Errorf (''invalid compare op: '' @ CompareOp_String co @
        '' supported ops are '' @
        ''None: Enum value 0, ValueIsAbove: Enum value 1, ValueIsBelow: Enum value 2, '' @
        ''ValueIsEq: Enum value 3, ValueIsNotEq: Enum value 4, ValueAboveOrEq: Enum value 5, '' @
        ''ValueBelowOrEq: Enum value 6, ValueOutsideBounds: Enum value 7, '')))
   \<and> CompareOp_Validate CompareOpNone \<noteq> None"
  unfolding CompareOp_Validate_def supportedCompareOps_msg
  by (simp add: CompareOp_codes)

text \<open>
  Claim C3 says that \<open>MatchType_Validate\<close> succeeds only for the five codes \<open>1\<close> to \<open>5\<close> and
  rejects \<^verbatim>\<open>MatchTypeNone\<close> (\<open>0\<close>).  The source accepts \<^verbatim>\<open>MatchTypeNone\<close>, while its sibling
  \<open>CompareOp_Validate\<close> rejects \<^verbatim>\<open>CompareOpNone\<close>.
\<close>

theorem MatchType_Validate_accepts_none:
  "MatchType_Validate MatchTypeNone = None \<and> MatchType_Validate ''0'' = None \<and>
   CompareOp_Validate CompareOpNone \<noteq> None"
  by (simp add: MatchType_Validate_def CompareOp_Validate_def CompareOp_codes MatchType_codes)

text \<open>
  What \<open>MatchType_Validate\<close> computes: success for the six codes \<open>0\<close> to \<open>5\<close>, and for every
  other string an error whose text lists the supported values with their descriptions.
\<close>

lemma MatchType_Validate_computes:
  "MatchType_Validate mt =
     (if mt \<in> {''0'', ''1'', ''2'', ''3'', ''4'', ''5''} then None
      else Some (Errorf (''invalid match type: '' @ MatchType_String mt @
        '' supported ops are '' @
        ''None: Enum value 0, AtleastOnce: Enum value 1, AllTheTimes: Enum value 2, '' @
        ''OnAverage: Enum value 3, InTotal: Enum value 4, Last: Enum value 5, '')))"
  unfolding MatchType_Validate_def supportedMatchTypes_msg
  by (simp add: MatchType_codes)

section \<open>Properties of the rule condition\<close>

text \<open>
  Claim C4.  \<open>RuleCondition_Validate\<close> returns \<open>ErrCompositeQueryRequired\<close> whenever the
  composite query is nil.  With a builder query it returns \<open>ErrTargetRequired\<close> for a nil
  target, then \<open>ErrCompareOpRequired\<close> for an empty operator, then the operator's own
  validation error, then \<open>ErrMatchTypeRequired\<close> for an empty match type, then the match
  type's own validation error, in this order, and the nested query's validation when all
  pass.  With any other query type none of the three is required: the result is the nested
  query's validation alone.
\<close>

theorem RuleCondition_Validate_order:
  "(CompositeQuery rc = None \<longrightarrow>
      RuleCondition_Validate cqValidate (Some rc) = Inr (Some ErrCompositeQueryRequired)) \<and>
   (\<forall>cq. CompositeQuery rc = Some cq \<and> CQ_QueryType cq = QueryTypeBuilder \<longrightarrow>
      (Target rc = None \<longrightarrow>
         RuleCondition_Validate cqValidate (Some rc) = Inr (Some ErrTargetRequired)) \<and>
      (Target rc \<noteq> None \<and> CompareOp rc = [] \<longrightarrow>
         RuleCondition_Validate cqValidate (Some rc) = Inr (Some ErrCompareOpRequired)) \<and>
      (Target rc \<noteq> None \<and> CompareOp rc \<noteq> [] \<and> CompareOp_Validate (CompareOp rc) \<noteq> None \<longrightarrow>
         RuleCondition_Validate cqValidate (Some rc) = Inr (CompareOp_Validate (CompareOp rc))) \<and>
      (Target rc \<noteq> None \<and> CompareOp rc \<noteq> [] \<and> CompareOp_Validate (CompareOp rc) = None
         \<and> MatchType rc = [] \<longrightarrow>
         RuleCondition_Validate cqValidate (Some rc) = Inr (Some ErrMatchTypeRequired)) \<and>
      (Target rc \<noteq> None \<and> CompareOp rc \<noteq> [] \<and> CompareOp_Validate (CompareOp rc) = None
         \<and> MatchType rc \<noteq> [] \<and> MatchType_Validate (MatchType rc) \<noteq> None \<longrightarrow>
         RuleCondition_Validate cqValidate (Some rc) = Inr (MatchType_Validate (MatchType rc))) \<and>
      (Target rc \<noteq> None \<and> CompareOp rc \<noteq> [] \<and> CompareOp_Validate (CompareOp rc) = None
         \<and> MatchType rc \<noteq> [] \<and> MatchType_Validate (MatchType rc) = None \<longrightarrow>
         RuleCondition_Validate cqValidate (Some rc) = Inr (cqValidate cq))) \<and>
   (\<forall>cq. CompositeQuery rc = Some cq \<and> CQ_QueryType cq \<noteq> QueryTypeBuilder \<longrightarrow>
      RuleCondition_Validate cqValidate (Some rc) = Inr (cqValidate cq))"
  by (auto simp add: RuleCondition_Validate_def builder_checks_def QueryType_def
        split: option.splits)

theorem RuleCondition_Validate_order_witness:
  "RuleCondition_Validate (\<lambda>cq. None) (Some (example_condition None None [] [] []))
     = Inr (Some ErrCompositeQueryRequired) \<and>
   RuleCondition_Validate (\<lambda>cq. None)
     (Some (example_condition (Some (example_query QueryTypeBuilder [''A''] [])) None [] [] []))
     = Inr (Some ErrTargetRequired) \<and>
   RuleCondition_Validate (\<lambda>cq. None)
     (Some (example_condition (Some (example_query QueryTypeBuilder [''A''] [])) (Some ()) [] [] []))
     = Inr (Some ErrCompareOpRequired) \<and>
   RuleCondition_Validate (\<lambda>cq. None)
     (Some (example_condition (Some (example_query QueryTypeBuilder [''A''] [])) (Some ()) ''9'' [] []))
     = Inr (CompareOp_Validate ''9'') \<and>
   CompareOp_Validate ''9'' \<noteq> None \<and>
   RuleCondition_Validate (\<lambda>cq. None)
     (Some (example_condition (Some (example_query QueryTypeBuilder [''A''] [])) (Some ()) ''1'' [] []))
     = Inr (Some ErrMatchTypeRequired) \<and>
   RuleCondition_Validate (\<lambda>cq. None)
     (Some (example_condition (Some (example_query QueryTypeBuilder [''A''] [])) (Some ()) ''1'' ''9'' []))
     = Inr (MatchType_Validate ''9'') \<and>
   MatchType_Validate ''9'' \<noteq> None \<and>
   RuleCondition_Validate (\<lambda>cq. None)
     (Some (example_condition (Some (example_query QueryTypeBuilder [''A''] [])) (Some ()) ''1'' ''2'' []))
     = Inr None \<and>
   RuleCondition_Validate (\<lambda>cq. Some (ErrOther ''nested''))
     (Some (example_condition (Some (example_query QueryTypePromQL [] [])) None [] [] []))
     = Inr (Some (ErrOther ''nested'')) \<and>
   RuleCondition_Validate (\<lambda>cq. None)
     (Some (example_condition (Some (example_query QueryTypePromQL [] [])) None [] [] []))
     = Inr None"
  using
    RuleCondition_Validate_order [of "example_condition None None [] [] []" "\<lambda>cq. None"]
    RuleCondition_Validate_order [of "example_condition (Some (example_query QueryTypeBuilder [''A''] [])) None [] [] []" "\<lambda>cq. None"]
    RuleCondition_Validate_order [of "example_condition (Some (example_query QueryTypeBuilder [''A''] [])) (Some ()) [] [] []" "\<lambda>cq. None"]
    RuleCondition_Validate_order [of "example_condition (Some (example_query QueryTypeBuilder [''A''] [])) (Some ()) ''9'' [] []" "\<lambda>cq. None"]
    RuleCondition_Validate_order [of "example_condition (Some (example_query QueryTypeBuilder [''A''] [])) (Some ()) ''1'' [] []" "\<lambda>cq. None"]
    RuleCondition_Validate_order [of "example_condition (Some (example_query QueryTypeBuilder [''A''] [])) (Some ()) ''1'' ''9'' []" "\<lambda>cq. None"]
    RuleCondition_Validate_order [of "example_condition (Some (example_query QueryTypeBuilder [''A''] [])) (Some ()) ''1'' ''2'' []" "\<lambda>cq. None"]
    RuleCondition_Validate_order [of "example_condition (Some (example_query QueryTypePromQL [] [])) None [] [] []" "\<lambda>cq. Some (ErrOther ''nested'')"]
    RuleCondition_Validate_order [of "example_condition (Some (example_query QueryTypePromQL [] [])) None [] [] []" "\<lambda>cq. None"]
  by (simp add: example_condition_def example_query_def CompareOp_Validate_def MatchType_Validate_def CompareOp_codes MatchType_codes)









text \<open>
  Claim C10.  \<open>GetSelectedQueryName\<close> is not total on non-nil receivers: when
  \<open>SelectedQuery\<close> is empty and no sub-query name is collected (the composite query is
  nil, or its type is neither builder nor ClickHouse SQL, or the map read is empty), the
  last step indexes an empty slice at \<open>-1\<close> and panics; no string is returned.
\<close>

theorem GetSelectedQueryName_panics_without_names:
  "SelectedQuery rc = [] \<Longrightarrow>
   (case CompositeQuery rc of
      None \<Rightarrow> True
    | Some cq \<Rightarrow>
        if CQ_QueryType cq = QueryTypeBuilder then BuilderQueries cq = []
        else if CQ_QueryType cq = QueryTypeClickHouseSQL then ClickHouseQueries cq = []
        else True) \<Longrightarrow>
   GetSelectedQueryName (Some rc) = Inl (IndexOutOfRange (- 1) 0) \<and>
   (\<forall>name. GetSelectedQueryName (Some rc) \<noteq> Inr name)"
  by (auto simp add: GetSelectedQueryName_def queryNames_of_def QueryType_def
        split: option.splits if_splits)

theorem GetSelectedQueryName_panics_without_names_witness:
  "GetSelectedQueryName (Some (example_condition None None [] [] [])) = Inl (IndexOutOfRange (- 1) 0) \<and>
   GetSelectedQueryName (Some (example_condition
       (Some (example_query QueryTypePromQL [''A''] [''B''])) None [] [] [])) = Inl (IndexOutOfRange (- 1) 0) \<and>
   GetSelectedQueryName (Some (example_condition
       (Some (example_query QueryTypeBuilder [] [''B''])) None [] [] [])) = Inl (IndexOutOfRange (- 1) 0)"
  using
    GetSelectedQueryName_panics_without_names [of "example_condition None None [] [] []"]
    GetSelectedQueryName_panics_without_names [of "example_condition
       (Some (example_query QueryTypePromQL [''A''] [''B''])) None [] [] []"]
    GetSelectedQueryName_panics_without_names [of "example_condition
       (Some (example_query QueryTypeBuilder [] [''B''])) None [] [] []"]
  by (simp add: example_condition_def example_query_def)

section \<open>Properties of the generator URL builder\<close>

text \<open>
  \<open>strings_LastIndex\<close> is negative exactly when \<open>substr\<close> does not occur, and otherwise
  it is the length of the longest prefix after which \<open>substr\<close> occurs.
\<close>

lemma LastIndex_from_absent:
  "(LastIndex_from substr s i < 0) = (\<not> sublist substr s)"
proof (induction s arbitrary: i)
  case Nil
  show ?case by simp
next
  case (Cons c cs)
  show ?case
    using Cons.IH [of "Suc i"]
    by (auto simp add: Let_def sublist_Cons_right)
qed

lemma LastIndex_from_present:
  assumes "s = p @ substr @ r"
    and "\<forall>p' r'. s = p' @ substr @ r' \<longrightarrow> length p' \<le> length p"
  shows "LastIndex_from substr s i = int (i + length p)"
  using assms
proof (induction s arbitrary: i p)
  case Nil
  then show ?case by simp
next
  case (Cons c cs)
  show ?case
  proof (cases p)
    case Nil
    have "\<not> sublist substr cs"
    proof
      assume "sublist substr cs"
      then obtain p' r' where "cs = p' @ substr @ r'" by (auto simp: sublist_def)
      then have "c # cs = (c # p') @ substr @ r'" by simp
      with Cons.prems(2) have "length (c # p') \<le> length p" by blast
      with Nil show False by simp
    qed
    then have "LastIndex_from substr cs (Suc i) < 0" by (simp add: LastIndex_from_absent)
    moreover have "prefix substr (c # cs)" using Cons.prems(1) Nil by (simp add: prefix_def)
    ultimately show ?thesis using Nil by (simp add: Let_def)
  next
    case (Cons c' p'')
    with Cons.prems(1) have cs: "cs = p'' @ substr @ r" and "c' = c" by simp_all
    have mx: "\<forall>q r'. cs = q @ substr @ r' \<longrightarrow> length q \<le> length p''"
    proof (intro allI impI)
      fix q r' assume "cs = q @ substr @ r'"
      then have "c # cs = (c # q) @ substr @ r'" by simp
      with Cons.prems(2) have "length (c # q) \<le> length p" by blast
      with Cons show "length q \<le> length p''" by simp
    qed
    have "LastIndex_from substr cs (Suc i) = int (Suc i + length p'')"
      using Cons.IH [OF cs mx] .
    then show ?thesis using Cons by (simp add: Let_def)
  qed
qed

lemma LastIndex_absent: "\<not> sublist substr s \<Longrightarrow> \<not> strings_LastIndex s substr > - 1"
  using LastIndex_from_absent [of substr s 0] by (simp add: strings_LastIndex_def)

lemma LastIndex_present:
  "s = p @ substr @ r \<Longrightarrow> \<forall>p' r'. s = p' @ substr @ r' \<longrightarrow> length p' \<le> length p \<Longrightarrow>
   strings_LastIndex s substr = int (length p)"
  using LastIndex_from_present [of s p substr r 0] by (simp add: strings_LastIndex_def)

lemma last_occurrence_by_rest:
  assumes s: "s = p @ sub @ r" and rest: "\<not> sublist sub (tl (sub @ r))"
  shows "\<forall>p' r'. s = p' @ sub @ r' \<longrightarrow> length p' \<le> length p"
proof (intro allI impI, rule ccontr)
  fix p' r'
  assume s': "s = p' @ sub @ r'" and "\<not> length p' \<le> length p"
  then have longer: "length p < length p'" by simp
  from s s' have "p @ (sub @ r) = p' @ (sub @ r')" by simp
  then obtain us where
    "(p = p' @ us \<and> us @ sub @ r = sub @ r') \<or> (p @ us = p' \<and> sub @ r = us @ sub @ r')"
    unfolding append_eq_append_conv2 by blast
  with longer have us: "p @ us = p'" "sub @ r = us @ sub @ r'" by auto
  with longer obtain x q where "us = x # q" by (cases us) auto
  with us(2) have "tl (sub @ r) = q @ sub @ r'" by simp
  then have "sublist sub (tl (sub @ r))" unfolding sublist_def by blast
  with rest show False by contradiction
qed

text \<open>
  Claim C7 says that whenever the source contains \<open>new\<close> the result is the prefix up to
  the last occurrence followed by \<open>edit?ruleId=\<close> and the rule id.  The source first
  parses the text and returns the empty string when that fails: the text below contains
  \<open>new\<close>, starts with a colon (no scheme before it), and yields the empty string.
\<close>

theorem prepareRuleGeneratorURL_new_unparsed_counterexample:
  "sublist ''new'' ''://host:3301/alerts/new'' \<and>
   prepareRuleGeneratorURL ''r1'' ''://host:3301/alerts/new'' = [] \<and>
   prepareRuleGeneratorURL ''r1'' ''://host:3301/alerts/new'' \<noteq>
     ''://host:3301/alerts/'' @ ''edit?ruleId='' @ ''r1''"
  by code_simp

text \<open>
  Claim C7, amended.  The result is empty for an empty source.  For a source that parses
  as a URL: when it contains \<open>new\<close>, the result is the prefix of the source up to the last
  occurrence of \<open>new\<close>, unchanged, followed by \<open>edit?ruleId=\<close> and the rule id; when it
  does not, the result is \<open>scheme://host[:port]/alerts/edit?ruleId=\<close> and the rule id,
  built from the scheme, host name and port of the parsed source (no port, no colon), and
  nothing of the path or the query.
\<close>

theorem prepareRuleGeneratorURL_parsed:
  "prepareRuleGeneratorURL ruleId [] = [] \<and>
   (\<forall>u p r. url_Parse source = Inr u \<and> source = p @ ''new'' @ r
        \<and> (\<forall>p' r'. source = p' @ ''new'' @ r' \<longrightarrow> length p' \<le> length p) \<longrightarrow>
      prepareRuleGeneratorURL ruleId source = p @ ''edit?ruleId='' @ ruleId) \<and>
   (\<forall>u. source \<noteq> [] \<and> url_Parse source = Inr u \<and> \<not> sublist ''new'' source \<longrightarrow>
      prepareRuleGeneratorURL ruleId source =
        Scheme u @ ''://'' @ Hostname u @ (if Port u = [] then [] else '':'' @ Port u)
          @ ''/alerts/edit?ruleId='' @ ruleId)"
proof (intro conjI allI impI)
  show "prepareRuleGeneratorURL ruleId [] = []" by (simp add: prepareRuleGeneratorURL_def)
next
  fix u p r
  assume a: "url_Parse source = Inr u \<and> source = p @ ''new'' @ r
        \<and> (\<forall>p' r'. source = p' @ ''new'' @ r' \<longrightarrow> length p' \<le> length p)"
  then have ne: "source \<noteq> []" by auto
  have idx: "strings_LastIndex source ''new'' = int (length p)"
    using a LastIndex_present [of source p "''new''" r] by blast
  have tk: "take (length p) source = p" using a by simp
  have ok: "url_Parse source = Inr u" using a by blast
  show "prepareRuleGeneratorURL ruleId source = p @ ''edit?ruleId='' @ ruleId"
    using ne by (simp add: prepareRuleGeneratorURL_def ok idx tk)
next
  fix u
  assume a: "source \<noteq> [] \<and> url_Parse source = Inr u \<and> \<not> sublist ''new'' source"
  then have no: "\<not> strings_LastIndex source ''new'' > - 1" using LastIndex_absent by blast
  have ok: "url_Parse source = Inr u" and ne: "source \<noteq> []" using a by blast+
  show "prepareRuleGeneratorURL ruleId source =
        Scheme u @ ''://'' @ Hostname u @ (if Port u = [] then [] else '':'' @ Port u)
          @ ''/alerts/edit?ruleId='' @ ruleId"
    using ne no by (simp add: prepareRuleGeneratorURL_def ok)
qed

theorem prepareRuleGeneratorURL_parsed_witness:
  "prepareRuleGeneratorURL ''r1'' [] = [] \<and>
   prepareRuleGeneratorURL ''r1'' ''http://host:3301/alerts/new?x=1''
     = ''http://host:3301/alerts/edit?ruleId=r1'' \<and>
   prepareRuleGeneratorURL ''r1'' ''https://app.example.com/alerts/list?x=1''
     = ''https://app.example.com/alerts/edit?ruleId=r1'' \<and>
   prepareRuleGeneratorURL ''r1'' ''http://localhost:3301/alerts/list?x=1''
     = ''http://localhost:3301/alerts/edit?ruleId=r1''"
proof -
  note empty = prepareRuleGeneratorURL_parsed [THEN conjunct1]
  note with_new = prepareRuleGeneratorURL_parsed [THEN conjunct2, THEN conjunct1, rule_format]
  note without_new = prepareRuleGeneratorURL_parsed [THEN conjunct2, THEN conjunct2, rule_format]
  let ?u1 = "empty_URL\<lparr>Scheme := ''http'', Host := ''host:3301'', Path := ''/alerts/new'',
    RawQuery := ''x=1''\<rparr>"
  have parse1: "url_Parse ''http://host:3301/alerts/new?x=1'' = Inr ?u1"
    by code_simp
  have split1: "''http://host:3301/alerts/new?x=1'' = ''http://host:3301/alerts/'' @ ''new'' @ ''?x=1''"
    by simp
  have "\<not> sublist ''new'' (tl (''new'' @ ''?x=1''))" by code_simp
  then have last1: "\<forall>p' r'. ''http://host:3301/alerts/new?x=1'' = p' @ ''new'' @ r'
      \<longrightarrow> length p' \<le> length ''http://host:3301/alerts/''"
    by (rule last_occurrence_by_rest [OF split1])
  have r1: "prepareRuleGeneratorURL ''r1'' ''http://host:3301/alerts/new?x=1''
     = ''http://host:3301/alerts/'' @ ''edit?ruleId='' @ ''r1''"
    by (rule with_new [OF conjI [OF parse1 conjI [OF split1 last1]]])
  let ?u2 = "empty_URL\<lparr>Scheme := ''https'', Host := ''app.example.com'', Path := ''/alerts/list'',
    RawQuery := ''x=1''\<rparr>"
  have parse2: "url_Parse ''https://app.example.com/alerts/list?x=1'' = Inr ?u2"
    by code_simp
  have no2: "\<not> sublist ''new'' ''https://app.example.com/alerts/list?x=1''" by code_simp
  have ne2: "''https://app.example.com/alerts/list?x=1'' \<noteq> []" by simp
  have r2: "prepareRuleGeneratorURL ''r1'' ''https://app.example.com/alerts/list?x=1'' =
      Scheme ?u2 @ ''://'' @ Hostname ?u2 @ (if Port ?u2 = [] then [] else '':'' @ Port ?u2)
        @ ''/alerts/edit?ruleId='' @ ''r1''"
    by (rule without_new [OF conjI [OF ne2 conjI [OF parse2 no2]]])
  let ?u3 = "empty_URL\<lparr>Scheme := ''http'', Host := ''localhost:3301'', Path := ''/alerts/list'',
    RawQuery := ''x=1''\<rparr>"
  have parse3: "url_Parse ''http://localhost:3301/alerts/list?x=1'' = Inr ?u3"
    by code_simp
  have no3: "\<not> sublist ''new'' ''http://localhost:3301/alerts/list?x=1''" by code_simp
  have ne3: "''http://localhost:3301/alerts/list?x=1'' \<noteq> []" by simp
  have r3: "prepareRuleGeneratorURL ''r1'' ''http://localhost:3301/alerts/list?x=1'' =
      Scheme ?u3 @ ''://'' @ Hostname ?u3 @ (if Port ?u3 = [] then [] else '':'' @ Port ?u3)
        @ ''/alerts/edit?ruleId='' @ ''r1''"
    by (rule without_new [OF conjI [OF ne3 conjI [OF parse3 no3]]])
  have h2: "Hostname ?u2 = ''app.example.com''" "Port ?u2 = []" "Scheme ?u2 = ''https''"
    by code_simp+
  have h3: "Hostname ?u3 = ''localhost''" "Port ?u3 = ''3301''" "Scheme ?u3 = ''http''"
    by code_simp+
  show ?thesis
    using empty [of "''r1''"] r1 r2 r3 unfolding h2 h3 by simp
qed

text \<open>
  Claim C8 says that a source that fails to parse yields the empty string, and names
  \<open>not a url\<close> as such a source.  \<^verbatim>\<open>url.Parse\<close> accepts that text as a relative reference
  (empty scheme, empty host, the whole text as path), so the function goes on and formats
  a link with an empty scheme and host.
\<close>

theorem prepareRuleGeneratorURL_not_a_url:
  "url_Parse ''not a url'' = Inr (empty_URL\<lparr>Path := ''not a url''\<rparr>) \<and>
   prepareRuleGeneratorURL ''r1'' ''not a url'' = '':///alerts/edit?ruleId=r1''"
  by code_simp

text \<open>
  What does hold: a source that \<^verbatim>\<open>url.Parse\<close> refuses yields the empty string.
\<close>

lemma prepareRuleGeneratorURL_unparsed:
  "url_Parse source = Inl err \<Longrightarrow> prepareRuleGeneratorURL ruleId source = []"
  by (simp add: prepareRuleGeneratorURL_def)


lemma prepareRuleGeneratorURL_unparsed_example:
  "url_Parse ''http://host:33x1/alerts'' = Inl (InvalidPort '':33x1'') \<and>
   prepareRuleGeneratorURL ''r1'' ''http://host:33x1/alerts'' = []"
proof -
  have p: "url_Parse ''http://host:33x1/alerts'' = Inl (InvalidPort '':33x1'')" by code_simp
  show ?thesis using p prepareRuleGeneratorURL_unparsed [OF p, of "''r1''"] by simp
qed

section \<open>Properties of the duration codec\<close>

lemma digits_value_simps [simp]:
  "digits_value x [] = x"
  "digits_value x (c # cs) = digits_value (x * 10 + digit_val c) cs"
  "digits_value x (ds @ [c]) = digits_value x ds * 10 + digit_val c"
  by (simp_all add: digits_value_def)

lemma digits_value_append:
  "digits_value x (ds @ es) = digits_value (digits_value x ds) es"
  by (simp add: digits_value_def)

lemma digits_value_ge: "x \<le> digits_value x ds"
proof (induction ds arbitrary: x)
  case Nil
  show ?case by simp
next
  case (Cons c cs)
  have "x \<le> x * 10 + digit_val c" by simp
  also have "\<dots> \<le> digits_value (x * 10 + digit_val c) cs" by (rule Cons.IH)
  finally show ?case by simp
qed

lemma digit_char_props:
  assumes "n < 10"
  shows "is_digit (digit_char n)" and "digit_val (digit_char n) = n"
    and "digit_char n \<noteq> CHR ''.''"
proof -
  have oc: "of_char (digit_char n) = n + (48::nat)"
    using assms by (simp add: digit_char_def)
  show "is_digit (digit_char n)"
    using assms by (simp add: is_digit_def less_eq_char_def oc)
  show "digit_val (digit_char n) = n"
    by (simp add: digit_val_def oc)
  show "digit_char n \<noteq> CHR ''.''"
  proof
    assume "digit_char n = CHR ''.''"
    then have "of_char (digit_char n) = (of_char CHR ''.'' :: nat)" by simp
    with oc show False by simp
  qed
qed

lemma is_digit_not_dot: "is_digit c \<Longrightarrow> c \<noteq> CHR ''.''"
  by (auto simp add: is_digit_def less_eq_char_def)

lemma is_digit_bounds: "is_digit c \<Longrightarrow> (of_char c :: nat) \<ge> 48 \<and> digit_val c < 10"
  by (auto simp add: is_digit_def less_eq_char_def digit_val_def)

lemma fmtInt_loop_decimal: "fmtInt_loop buf v = decimal v @ buf"
proof (induction buf v rule: fmtInt_loop.induct)
  case (1 buf v)
  show ?case
  proof (cases "0 < v")
    case True
    have "fmtInt_loop buf v = fmtInt_loop (digit_char (v mod 10) # buf) (v div 10)"
      using True by (subst fmtInt_loop.simps) simp
    also have "\<dots> = decimal (v div 10) @ digit_char (v mod 10) # buf"
      using 1 [OF True] .
    also have "\<dots> = decimal v @ buf"
      using True by (subst (2) decimal.simps) simp
    finally show ?thesis .
  next
    case False
    then show ?thesis
      by (subst fmtInt_loop.simps, subst decimal.simps) simp
  qed
qed

lemma decimal_digits: "list_all is_digit (decimal v)"
proof (induction v rule: decimal.induct)
  case (1 v)
  show ?case
  proof (cases "0 < v")
    case True
    then show ?thesis
      using 1 [OF True] by (subst decimal.simps) (simp add: digit_char_props)
  next
    case False
    then show ?thesis by (subst decimal.simps) simp
  qed
qed

lemma digits_value_decimal: "digits_value 0 (decimal v) = v"
proof (induction v rule: decimal.induct)
  case (1 v)
  show ?case
  proof (cases "0 < v")
    case True
    then show ?thesis
      using 1 [OF True] by (subst decimal.simps) (simp add: digit_char_props)
  next
    case False
    then show ?thesis by (subst decimal.simps) simp
  qed
qed

lemma decimal_nonempty: "0 < v \<Longrightarrow> decimal v \<noteq> []"
  by (subst decimal.simps) simp

lemma fmtInt_int_text: "fmtInt buf v = int_text v @ buf"
  by (simp add: fmtInt_def int_text_def fmtInt_loop_decimal)

lemma int_text_props:
  "list_all is_digit (int_text v)" "int_text v \<noteq> []" "digits_value 0 (int_text v) = v"
proof -
  have eq: "int_text v = (if v = 0 then ''0'' else decimal v)"
    by (simp add: int_text_def fmtInt_def fmtInt_loop_decimal)
  show "list_all is_digit (int_text v)"
    by (simp add: eq decimal_digits is_digit_def)
  show "int_text v \<noteq> []" by (simp add: eq decimal_nonempty)
  show "digits_value 0 (int_text v) = v"
    by (simp add: eq digits_value_decimal digit_val_def)
qed

lemma leadingInt_loop_digits:
  assumes "list_all is_digit ds" and "stops rest" and "digits_value x ds \<le> 2 ^ 63"
  shows "leadingInt_loop x (ds @ rest) = Some (digits_value x ds, rest)"
  using assms
proof (induction ds arbitrary: x)
  case Nil
  then show ?case by (cases rest) (simp_all add: stops_def)
next
  case (Cons c cs)
  let ?x' = "x * 10 + digit_val c"
  have dig: "is_digit c" and rest: "list_all is_digit cs" using Cons.prems(1) by simp_all
  have b: "?x' \<le> 2 ^ 63"
    using digits_value_ge [of ?x' cs] Cons.prems(3) by simp
  then have x10: "x * 10 \<le> 2 ^ 63" by simp
  have small: "\<not> 2 ^ 63 div 10 < x"
  proof
    assume "2 ^ 63 div 10 < x"
    then have "(2::nat) ^ 63 div 10 + 1 \<le> x" by simp
    then have "((2::nat) ^ 63 div 10 + 1) * 10 \<le> x * 10" by simp
    with x10 show False by simp
  qed
  have conv: "x * 10 + of_char c - 48 = ?x'"
    using is_digit_bounds [OF dig] by (simp add: digit_val_def)
  have md: "?x' mod 2 ^ 64 = ?x'" using b by simp
  have nb: "\<not> 2 ^ 63 < ?x'" using b by simp
  have "leadingInt_loop x ((c # cs) @ rest) = leadingInt_loop ?x' (cs @ rest)"
    using dig small nb by (simp add: conv md Let_def del: of_char_eq_iff)
  also have "\<dots> = Some (digits_value ?x' cs, rest)"
    using Cons.IH [OF rest Cons.prems(2)] Cons.prems(3) by simp
  finally show ?case by simp
qed

lemma leadingInt_int_text:
  assumes "stops rest" and "v \<le> 2 ^ 63"
  shows "leadingInt (int_text v @ rest) = Some (v, rest)"
  using leadingInt_loop_digits [OF int_text_props(1) assms(1), of 0 v] assms(2)
  by (simp add: leadingInt_def int_text_props(3))

lemma pow2_nonpos: "e \<le> 0 \<Longrightarrow> pow2 e = 1 / 2 ^ nat (- e)"
  by (cases "e = 0") (simp_all add: pow2_def)

lemma round_half_even_of_int: "round_half_even (of_int m) = m"
  by (simp add: round_half_even_def Let_def)

lemma bitlen_le_53:
  assumes "0 < n" and "n < 2 ^ 53"
  shows "1 \<le> bitlen n" and "bitlen n \<le> 53"
proof -
  from bitlen_bounds [OF assms(1)]
  have lo: "2 ^ nat (bitlen n - 1) \<le> n" and hi: "n < 2 ^ nat (bitlen n)" by simp_all
  show "1 \<le> bitlen n"
    using assms(1) bitlen_eq_zero_iff [of n] bitlen_nonneg [of n] by linarith
  from lo assms(2) have "(2::int) ^ nat (bitlen n - 1) < 2 ^ 53" by linarith
  then have p: "(2::int) ^ nat (bitlen n - 1) < 2 ^ 53" .
  have "nat (bitlen n - 1) < 53"
  proof (rule power_less_imp_less_exp)
    show "(1::int) < 2" by simp
    show "(2::int) ^ nat (bitlen n - 1) < 2 ^ 53" by (rule p)
  qed
  then show "bitlen n \<le> 53" by linarith
qed

lemma ilog2_of_int:
  assumes "0 < n"
  shows "ilog2 (of_int n) = bitlen n - 1"
proof -
  from bitlen_bounds [OF assms]
  have lo: "2 ^ nat (bitlen n - 1) \<le> n" by simp
  have ge: "0 \<le> bitlen n - 1"
    using assms bitlen_eq_zero_iff [of n] bitlen_nonneg [of n] by linarith
  have "(of_int (2 ^ nat (bitlen n - 1)) :: rat) \<le> of_int n"
    using lo by (simp only: of_int_le_iff)
  then have "pow2 (bitlen n - 1) \<le> of_int n"
    using ge by (simp add: pow2_def)
  moreover have "bitlen 1 = 1" by (simp add: bitlen_alt_def)
  ultimately show ?thesis
    by (simp add: ilog2_def quotient_of_int Let_def)
qed

lemma float64_round_of_int:
  assumes "0 \<le> n" and "n < 2 ^ 53"
  shows "float64_round (of_int n) = of_int n"
proof (cases "n = 0")
  case True
  then show ?thesis by (simp add: float64_round_def)
next
  case False
  with assms(1) have pos: "0 < n" by simp
  define k where "k = nat (53 - bitlen n)"
  have e: "bitlen n - 1 - 52 \<le> 0" and k: "nat (- (bitlen n - 1 - 52)) = k"
    using bitlen_le_53 [OF pos assms(2)] by (simp_all add: k_def)
  have ulp: "pow2 (ilog2 \<bar>of_int n\<bar> - 52) = 1 / 2 ^ k"
    using pos pow2_nonpos [OF e] by (simp add: ilog2_of_int k_def)
  have "\<bar>of_int n :: rat\<bar> / (1 / 2 ^ k) = of_int (n * 2 ^ k)"
    using pos by simp
  then have r: "round_half_even (\<bar>of_int n :: rat\<bar> / (1 / 2 ^ k)) = n * 2 ^ k"
    by (simp only: round_half_even_of_int)
  have "float64_round (of_int n) = sgn (of_int n :: rat) * of_int (n * 2 ^ k) * (1 / 2 ^ k)"
    using False unfolding float64_round_def Let_def ulp r by simp
  also have "\<dots> = of_int n" using pos by simp
  finally show ?thesis .
qed

lemma float64_round_of_nat:
  assumes "n < 2 ^ 53"
  shows "float64_round (of_nat n) = of_nat n"
proof -
  have "int n < 2 ^ 53" using assms by simp
  from float64_round_of_int [OF _ this] show ?thesis by simp
qed

lemma mod_10_Suc: "(v::nat) mod 10 ^ Suc n = 10 * ((v div 10) mod 10 ^ n) + v mod 10"
  by (simp add: mod_mult2_eq)

lemma mod_10_Suc_zero:
  "((v::nat) mod 10 ^ Suc n = 0) = (v mod 10 = 0 \<and> (v div 10) mod 10 ^ n = 0)"
  unfolding mod_10_Suc by auto

lemma fmtFrac_loop_eq:
  "fmtFrac_loop n buf v print =
     (frac_digits n v print @ buf, v div 10 ^ n, print \<or> v mod 10 ^ n \<noteq> 0)"
proof (induction n arbitrary: buf v print)
  case 0
  show ?case by simp
next
  case (Suc n)
  have d: "v div 10 div 10 ^ n = v div 10 ^ Suc n"
    by (simp add: div_mult2_eq)
  show ?case
    unfolding fmtFrac_loop.simps Let_def Suc.IH d mod_10_Suc_zero
    by auto
qed

lemma frac_digits_props:
  "list_all is_digit (frac_digits n v print) \<and>
   length (frac_digits n v print) \<le> n \<and>
   (print \<longrightarrow> length (frac_digits n v print) = n) \<and>
   (\<not> print \<and> v mod 10 ^ n = 0 \<longrightarrow> frac_digits n v print = []) \<and>
   digits_value 0 (frac_digits n v print) * 10 ^ (n - length (frac_digits n v print))
     = v mod 10 ^ n"
proof (induction n arbitrary: v print)
  case 0
  show ?case by simp
next
  case (Suc n)
  define p where "p = (print \<or> v mod 10 \<noteq> 0)"
  define ds where "ds = frac_digits n (v div 10) p"
  note IH = Suc.IH [of "v div 10" p, folded ds_def]
  have eq: "frac_digits (Suc n) v print = ds @ (if p then [digit_char (v mod 10)] else [])"
    by (simp add: p_def ds_def)
  show ?case
  proof (cases p)
    case True
    with IH have len: "length ds = n" and dig: "list_all is_digit ds"
      and val0: "digits_value 0 ds * 10 ^ (n - length ds) = (v div 10) mod 10 ^ n"
      by blast+
    from val0 have val: "digits_value 0 ds = (v div 10) mod 10 ^ n"
      unfolding len by simp
    have eq': "frac_digits (Suc n) v print = ds @ [digit_char (v mod 10)]"
      using True eq by simp
    have "digits_value 0 (frac_digits (Suc n) v print) = v mod 10 ^ Suc n"
      unfolding eq' mod_10_Suc by (simp add: val digit_char_props)
    moreover have "length (frac_digits (Suc n) v print) = Suc n"
      unfolding eq' by (simp add: len)
    moreover have "list_all is_digit (frac_digits (Suc n) v print)"
      unfolding eq' by (simp add: dig digit_char_props)
    moreover have "\<not> (\<not> print \<and> v mod 10 ^ Suc n = 0)"
      using True unfolding mod_10_Suc_zero p_def by auto
    ultimately show ?thesis
      by (intro conjI impI) (simp_all del: frac_digits.simps power_Suc)
  next
    case False
    then have np: "\<not> print" and z: "v mod 10 = 0" by (simp_all add: p_def)
    have eq': "frac_digits (Suc n) v print = ds"
      using False eq by simp
    from IH False have len: "length ds \<le> n" and dig: "list_all is_digit ds"
      and emp: "(v div 10) mod 10 ^ n = 0 \<longrightarrow> ds = []"
      and val: "digits_value 0 ds * 10 ^ (n - length ds) = (v div 10) mod 10 ^ n"
      by simp_all
    have pw: "(10::nat) ^ (Suc n - length ds) = 10 * 10 ^ (n - length ds)"
      using len by (simp add: Suc_diff_le)
    have "digits_value 0 ds * 10 ^ (Suc n - length ds) = v mod 10 ^ Suc n"
      unfolding pw mod_10_Suc using val z by simp
    moreover have "v mod 10 ^ Suc n = 0 \<longrightarrow> ds = []"
      using emp unfolding mod_10_Suc_zero by simp
    ultimately show ?thesis
      unfolding eq' using len dig np by (intro conjI impI) (simp_all del: power_Suc)
  qed
qed

lemma fmtFrac_frac_text: "fmtFrac buf v prec = (frac_text prec v @ buf, v div 10 ^ prec)"
  using frac_digits_props [of prec v False]
  by (simp add: fmtFrac_def fmtFrac_loop_eq frac_text_def)

text \<open>\<open>leadingFraction\<close> reads a short string of digits back, with an exact scale.\<close>

lemma leadingFraction_loop_digits:
  assumes "list_all is_digit ds" and "stops rest"
    and "digits_value x ds < 2 ^ 53" and "sc * 10 ^ length ds < 2 ^ 53"
  shows "leadingFraction_loop x (of_nat sc) False (ds @ rest)
           = (digits_value x ds, of_nat (sc * 10 ^ length ds), rest)"
  using assms
proof (induction ds arbitrary: x sc)
  case Nil
  then show ?case by (cases rest) (simp_all add: stops_def)
next
  case (Cons c cs)
  let ?y = "x * 10 + digit_val c"
  have dig: "is_digit c" and rest: "list_all is_digit cs" using Cons.prems(1) by simp_all
  have b: "?y < 2 ^ 53"
    using digits_value_ge [of ?y cs] Cons.prems(3) by simp
  have small: "\<not> (2 ^ 63 - 1) div 10 < x" using b by simp
  have conv: "x * 10 + of_char c - 48 = ?y"
    using is_digit_bounds [OF dig] by (simp add: digit_val_def)
  have md: "?y mod 2 ^ 64 = ?y" using b by simp
  have nb: "\<not> 2 ^ 63 < ?y" using b by simp
  have sc: "sc * 10 < 2 ^ 53"
  proof -
    have "sc * 10 \<le> sc * 10 * 10 ^ length cs" by simp
    also have "\<dots> < 2 ^ 53" using Cons.prems(4) by (simp add: mult.assoc)
    finally show ?thesis .
  qed
  have fl: "float64_round (of_nat sc * 10) = of_nat (sc * 10)"
    using float64_round_of_nat [OF sc] by simp
  have "leadingFraction_loop x (of_nat sc) False ((c # cs) @ rest)
          = leadingFraction_loop ?y (of_nat (sc * 10)) False (cs @ rest)"
    using dig small nb by (simp add: conv md fl Let_def del: of_nat_mult)
  also have "\<dots> = (digits_value ?y cs, of_nat (sc * 10 * 10 ^ length cs), rest)"
    using Cons.prems(3,4) by (intro Cons.IH [OF rest Cons.prems(2)]) (simp_all add: mult.assoc)
  finally show ?case by (simp add: mult.assoc)
qed

lemma takeWhile_unit_text:
  assumes "unit_text ustr" and "starts_number rest"
  shows "takeWhile unit_char (ustr @ rest) = ustr"
proof -
  have "takeWhile unit_char rest = []"
    using assms(2) by (cases rest) (simp_all add: starts_number_def unit_char_def)
  moreover have "\<forall>c\<in>set ustr. unit_char c"
    using assms(1) by (simp add: unit_text_def list_all_iff)
  ultimately show ?thesis by simp
qed

lemma unit_text_hd:
  assumes "unit_text ustr"
  shows "ustr @ rest \<noteq> []" and "hd (ustr @ rest) \<noteq> CHR ''.''" and "stops (ustr @ rest)"
  using assms by (cases ustr; simp add: unit_text_def stops_def unit_char_def)+

lemma int_text_hd: "is_digit (hd (int_text a @ rest))"
  using int_text_props(1,2) [of a] by (cases "int_text a") simp_all

lemma le_div_of_mult_le:
  fixes a :: nat
  assumes "a * unit \<le> b" and "0 < unit"
  shows "\<not> b div unit < a"
  using assms by (simp add: less_eq_div_iff_mult_less_eq not_less)

lemma parse_component_plain:
  assumes ut: "unit_text ustr" and um: "unitMap ustr = Some unit" and "0 < unit"
    and sn: "starts_number rest" and bound: "a * unit \<le> 2 ^ 63"
  shows "parse_component orig (int_text a @ ustr @ rest) = Inr (a * unit, rest)"
proof -
  let ?s = "int_text a @ ustr @ rest"
  have a: "a \<le> 2 ^ 63"
  proof -
    have "a \<le> a * unit" using \<open>0 < unit\<close> by (cases unit) simp_all
    then show ?thesis using bound by (rule order_trans)
  qed
  have hd: "is_digit (hd ?s)" by (rule int_text_hd)
  have li: "leadingInt ?s = Some (a, ustr @ rest)"
    using leadingInt_int_text [OF unit_text_hd(3) [OF ut] a] .
  have len: "length ?s \<noteq> length (ustr @ rest)"
    using int_text_props(2) [of a] by simp
  have nodot: "\<not> (ustr @ rest \<noteq> [] \<and> hd (ustr @ rest) = CHR ''.'')"
    using unit_text_hd(2) [OF ut] by simp
  have tw: "takeWhile unit_char (ustr @ rest) = ustr"
    by (rule takeWhile_unit_text [OF ut sn])
  have ne: "ustr \<noteq> []" using ut by (simp add: unit_text_def)
  have chk: "\<not> 2 ^ 63 div unit < a" by (rule le_div_of_mult_le [OF bound \<open>0 < unit\<close>])
  have md: "a * unit mod 2 ^ 64 = a * unit" using bound by simp
  show ?thesis
    unfolding parse_component_def li
    using hd len nodot ne chk md
    by (simp add: Let_def tw um del: append_assoc)
qed

lemma pow10_bound: "prec \<le> 9 \<Longrightarrow> (10::nat) ^ prec < 2 ^ 53"
proof -
  assume "prec \<le> 9"
  then have "(10::nat) ^ prec \<le> 10 ^ 9" by (intro power_increasing) simp_all
  also have "\<dots> < 2 ^ 53" by simp
  finally show ?thesis .
qed

lemma rat_pow10_div:
  assumes "k \<le> prec"
  shows "(of_nat (10 ^ prec) :: rat) / of_nat (10 ^ k) = of_nat (10 ^ (prec - k))"
proof -
  have "(10::nat) ^ prec = 10 ^ (prec - k) * 10 ^ k"
    using assms by (simp flip: power_add)
  then have "(of_nat (10 ^ prec) :: rat) = of_nat (10 ^ (prec - k)) * of_nat (10 ^ k)"
    by (simp only: of_nat_mult)
  then show ?thesis by simp
qed

lemma parse_component_frac:
  assumes ut: "unit_text ustr" and um: "unitMap ustr = Some (10 ^ prec)" and prec: "prec \<le> 9"
    and sn: "starts_number rest" and nz: "v mod 10 ^ prec \<noteq> 0"
    and bound: "a * 10 ^ prec + v mod 10 ^ prec \<le> 2 ^ 63"
  shows "parse_component orig (int_text a @ frac_text prec v @ ustr @ rest)
           = Inr (a * 10 ^ prec + v mod 10 ^ prec, rest)"
proof -
  define F where "F = frac_digits prec v False"
  define w where "w = v mod 10 ^ prec"
  define k where "k = length F"
  define f where "f = digits_value 0 F"
  define unit :: nat where "unit = 10 ^ prec"
  have ft: "frac_text prec v = CHR ''.'' # F"
    using nz by (simp add: frac_text_def F_def)
  from frac_digits_props [of prec v False, folded F_def]
  have Fdig: "list_all is_digit F" and kp: "k \<le> prec" and val: "f * 10 ^ (prec - k) = w"
    by (simp_all add: k_def f_def w_def)
  have wpos: "0 < w" using nz by (simp add: w_def)
  have fpos: "0 < f" using val wpos by (cases f) simp_all
  have Fne: "F \<noteq> []" using fpos by (auto simp add: f_def)
  have wlt: "w < 10 ^ prec" by (simp add: w_def)
  have w53: "w < 2 ^ 53" using wlt pow10_bound [OF prec] by simp
  have fle: "f \<le> w"
  proof -
    have "f * 1 \<le> f * 10 ^ (prec - k)" by (intro mult_le_mono2) simp
    with val show ?thesis by simp
  qed
  have f53: "f < 2 ^ 53" using fle w53 by simp
  have k53: "1 * (10::nat) ^ k < 2 ^ 53" using pow10_bound [of k] kp prec by simp
  have upos: "0 < unit" by (simp add: unit_def)
  have aub: "a * unit \<le> 2 ^ 63" using bound by (simp add: unit_def)
  have a: "a \<le> 2 ^ 63"
  proof -
    have "a \<le> a * unit" using upos by (cases unit) simp_all
    then show ?thesis using aub by (rule order_trans)
  qed
  let ?s1 = "CHR ''.'' # F @ ustr @ rest"
  let ?s = "int_text a @ ?s1"
  have s_eq: "int_text a @ frac_text prec v @ ustr @ rest = ?s" by (simp add: ft)
  have hd: "is_digit (hd ?s)" by (rule int_text_hd)
  have st1: "stops ?s1" by (simp add: stops_def is_digit_def less_eq_char_def)
  have li: "leadingInt ?s = Some (a, ?s1)"
    using leadingInt_int_text [OF st1 a] .
  have len: "length ?s \<noteq> length ?s1"
    using int_text_props(2) [of a] by simp
  have lf: "leadingFraction (F @ ustr @ rest) = (f, of_nat (10 ^ k), ustr @ rest)"
    using leadingFraction_loop_digits [OF Fdig unit_text_hd(3) [OF ut], of 0 1 rest] f53 k53
    by (simp add: leadingFraction_def f_def k_def)
  have post: "length (F @ ustr @ rest) \<noteq> length (ustr @ rest)"
    using Fne by simp
  have tw: "takeWhile unit_char (ustr @ rest) = ustr"
    by (rule takeWhile_unit_text [OF ut sn])
  have ne: "ustr \<noteq> []" using ut by (simp add: unit_text_def)
  have chk: "\<not> 2 ^ 63 div unit < a" by (rule le_div_of_mult_le [OF aub upos])
  have md1: "a * unit mod 2 ^ 64 = a * unit" using aub by simp
  have fl1: "float64_round (of_nat f) = of_nat f" by (rule float64_round_of_nat [OF f53])
  have fl2: "float64_round (of_nat unit / of_nat (10 ^ k)) = of_nat (10 ^ (prec - k))"
  proof -
    have "(10::nat) ^ (prec - k) \<le> 10 ^ prec" by (intro power_increasing) simp_all
    then have "(10::nat) ^ (prec - k) < 2 ^ 53" using pow10_bound [OF prec] by (rule le_less_trans)
    from float64_round_of_nat [OF this] show ?thesis
      unfolding unit_def rat_pow10_div [OF kp] .
  qed
  have fl3: "float64_round (of_nat f * of_nat (10 ^ (prec - k))) = of_nat w"
    using float64_round_of_nat [OF w53] by (simp only: val [symmetric] of_nat_mult)
  have fr: "nat \<lfloor>float64_round (float64_round (of_nat f)
              * float64_round (of_nat unit / of_nat (10 ^ k)))\<rfloor> = w"
    unfolding fl1 fl2 fl3 by simp
  have md2: "(a * unit + w) mod 2 ^ 64 = a * unit + w"
    using bound by (simp add: unit_def w_def)
  have nb: "\<not> 2 ^ 63 < a * unit + w" using bound by (simp add: unit_def w_def)
  have um': "unitMap ustr = Some unit" using um by (simp add: unit_def)
  have "parse_component orig ?s = Inr (a * unit + w, rest)"
    unfolding parse_component_def li
    using hd len ne chk fpos md1 md2 nb
    by (simp add: Let_def lf tw um' fr post del: append_assoc of_nat_power of_nat_numeral)
  then show ?thesis by (simp add: s_eq unit_def w_def)
qed

lemma parse_component_fmt:
  assumes ut: "unit_text ustr" and um: "unitMap ustr = Some (10 ^ prec)" and prec: "prec \<le> 9"
    and sn: "starts_number rest"
    and bound: "a * 10 ^ prec + v mod 10 ^ prec \<le> 2 ^ 63"
  shows "parse_component orig (int_text a @ frac_text prec v @ ustr @ rest)
           = Inr (a * 10 ^ prec + v mod 10 ^ prec, rest)"
proof (cases "v mod 10 ^ prec = 0")
  case True
  then have "frac_text prec v = []" by (simp add: frac_text_def)
  moreover have "parse_component orig (int_text a @ ustr @ rest) = Inr (a * 10 ^ prec, rest)"
    using bound True by (intro parse_component_plain [OF ut um _ sn]) simp_all
  ultimately show ?thesis using True by simp
next
  case False
  then show ?thesis by (rule parse_component_frac [OF ut um prec sn _ bound])
qed

lemmas unit_consts =
  Nanosecond_def Microsecond_def Millisecond_def Second_def Minute_def Hour_def

lemma unit_texts:
  "unit_text ''ns''" "unit_text (micro_sign @ ''s'')" "unit_text ''ms''"
  "unit_text ''s''" "unit_text ''m''" "unit_text ''h''"
  by (simp_all add: unit_text_def unit_char_def is_digit_def less_eq_char_def micro_sign_def)

lemma unitMap_values:
  "unitMap ''ns'' = Some (10 ^ 0)" "unitMap (micro_sign @ ''s'') = Some (10 ^ 3)"
  "unitMap ''ms'' = Some (10 ^ 6)" "unitMap ''s'' = Some (10 ^ 9)"
  "unitMap ''m'' = Some (60 * 10 ^ 9)" "unitMap ''h'' = Some (3600 * 10 ^ 9)"
  by (simp_all add: unitMap_def micro_sign_def unit_consts)

lemma starts_number_int_text: "starts_number (int_text a @ rest)"
  using int_text_props(1,2) [of a] by (cases "int_text a") (simp_all add: starts_number_def)

lemma starts_number_Nil: "starts_number []"
  by (simp add: starts_number_def)

lemma parse_loop_Nil: "parse_loop orig [] d = Inr d"
  by (subst parse_loop.simps) simp

lemma parse_loop_step:
  assumes "parse_component orig s = Inr (v, s')" and "s \<noteq> []" and "d + v \<le> 2 ^ 63"
  shows "parse_loop orig s d = parse_loop orig s' (d + v)"
proof -
  have md: "(d + v) mod 2 ^ 64 = d + v" using assms(3) by simp
  have nb: "\<not> 2 ^ 63 < d + v" using assms(3) by simp
  show ?thesis
    by (subst parse_loop.simps) (simp add: assms(1,2) md nb del: power_numeral)
qed

lemma int_text_append_nonempty: "int_text a @ rest \<noteq> []"
  using int_text_props(2) [of a] by simp

lemma parse_loop_sec:
  assumes "d + (u div 10 ^ 9 mod 60) * 10 ^ 9 + u mod 10 ^ 9 \<le> 2 ^ 63"
  shows "parse_loop orig (sec_text u) d
           = Inr (d + (u div 10 ^ 9 mod 60) * 10 ^ 9 + u mod 10 ^ 9)"
proof -
  let ?a = "u div 10 ^ 9 mod 60"
  have b: "?a * 10 ^ 9 + u mod 10 ^ 9 \<le> 2 ^ 63" using assms by simp
  have "parse_component orig (int_text ?a @ frac_text 9 u @ ''s'' @ [])
          = Inr (?a * 10 ^ 9 + u mod 10 ^ 9, [])"
    by (rule parse_component_fmt [OF unit_texts(4) unitMap_values(4) _ starts_number_Nil b]) simp
  then have pc: "parse_component orig (sec_text u) = Inr (?a * 10 ^ 9 + u mod 10 ^ 9, [])"
    by (simp add: sec_text_def)
  have ne: "sec_text u \<noteq> []" by (simp add: sec_text_def int_text_append_nonempty)
  have "parse_loop orig (sec_text u) d = parse_loop orig [] (d + (?a * 10 ^ 9 + u mod 10 ^ 9))"
    using assms by (intro parse_loop_step [OF pc ne]) simp
  then show ?thesis by (simp add: parse_loop_Nil add.assoc)
qed

lemma parse_loop_plain:
  assumes ut: "unit_text ustr" and um: "unitMap ustr = Some unit" and "0 < unit"
    and "d + a * unit \<le> 2 ^ 63"
  shows "parse_loop orig (int_text a @ ustr @ int_text b @ rest) d
           = parse_loop orig (int_text b @ rest) (d + a * unit)"
proof -
  have b: "a * unit \<le> 2 ^ 63" using assms(4) by simp
  have pc: "parse_component orig (int_text a @ ustr @ int_text b @ rest)
              = Inr (a * unit, int_text b @ rest)"
    by (rule parse_component_plain [OF ut um assms(3) starts_number_int_text b])
  show ?thesis
    by (rule parse_loop_step [OF pc int_text_append_nonempty assms(4)])
qed

lemma sint_64_cases:
  fixes d :: "64 word"
  shows "sint d = (if uint d < 2 ^ 63 then uint d else uint d - 2 ^ 64)"
proof -
  have lo: "0 \<le> uint d" by simp
  have hi: "uint d < 2 ^ 64" using uint_lt2p [of d] by simp
  have s: "sint d = (uint d + 2 ^ 63) mod 2 ^ 64 - 2 ^ 63"
    by (simp add: sint_uint signed_take_bit_eq_take_bit_shift take_bit_eq_mod)
  show ?thesis
  proof (cases "uint d < 2 ^ 63")
    case True
    then have "(uint d + 2 ^ 63) mod 2 ^ 64 = uint d + 2 ^ 63"
      using lo by (intro mod_pos_pos_trivial) simp_all
    with True s show ?thesis by simp
  next
    case False
    have "(a - m) mod m = a mod m" for a m :: int by simp
    from this [of "uint d + 2 ^ 63" "2 ^ 64"]
    have "(uint d + 2 ^ 63) mod 2 ^ 64 = (uint d + 2 ^ 63 - 2 ^ 64) mod 2 ^ 64"
      by (rule sym)
    also have "\<dots> = uint d + 2 ^ 63 - 2 ^ 64"
      using False hi by (intro mod_pos_pos_trivial) simp_all
    finally show ?thesis using False s by simp
  qed
qed

lemma unat_magnitude_neg:
  fixes d :: "64 word"
  assumes "sint d < 0"
  shows "unat (- d) \<le> 2 ^ 63" and "unat (- d) \<noteq> 0"
proof -
  have lo: "0 \<le> uint d" by simp
  have hi: "uint d < 2 ^ 64" using uint_lt2p [of d] by simp
  from assms have big: "2 ^ 63 \<le> uint d"
    using lo by (simp add: sint_64_cases split: if_splits)
  have "uint (- d) = (- uint d) mod 2 ^ 64"
    by (simp add: uint_word_ariths)
  also have "\<dots> = (2 ^ 64 - uint d) mod 2 ^ 64"
  proof -
    have "(- x + m) mod m = (- x) mod m" for x m :: int by simp
    from this [of "uint d" "2 ^ 64"] show ?thesis by (simp only: minus_add_cancel uminus_add_conv_diff)
  qed
  also have "\<dots> = 2 ^ 64 - uint d"
    using big hi by (intro mod_pos_pos_trivial) simp_all
  finally have u: "uint (- d) = 2 ^ 64 - uint d" .
  have "unat (- d) = nat (2 ^ 64 - uint d)" by (simp only: unat_eq_nat_uint u)
  with big hi show "unat (- d) \<le> 2 ^ 63" and "unat (- d) \<noteq> 0" by simp_all
qed

lemma unat_magnitude_nonneg:
  fixes d :: "64 word"
  assumes "\<not> sint d < 0"
  shows "unat d \<le> 2 ^ 63 - 1"
proof -
  have lo: "0 \<le> uint d" by simp
  have hi: "uint d < 2 ^ 64" using uint_lt2p [of d] by simp
  from assms have "uint d < 2 ^ 63"
    using hi by (simp add: sint_64_cases split: if_splits)
  then have "nat (uint d) < 2 ^ 63" unfolding nat_less_iff [OF lo] by simp
  then have "unat d < 2 ^ 63" by simp
  then show ?thesis by simp
qed

lemma word_of_nat_unat_64: "word_of_nat (unat (d::64 word)) = d"
  by simp

lemma parse_loop_fmt:
  assumes ut: "unit_text ustr" and um: "unitMap ustr = Some (10 ^ prec)" and prec: "prec \<le> 9"
    and bound: "a * 10 ^ prec + v mod 10 ^ prec \<le> 2 ^ 63"
  shows "parse_loop orig (int_text a @ frac_text prec v @ ustr) 0
           = Inr (a * 10 ^ prec + v mod 10 ^ prec)"
proof -
  have "parse_component orig (int_text a @ frac_text prec v @ ustr @ [])
          = Inr (a * 10 ^ prec + v mod 10 ^ prec, [])"
    by (rule parse_component_fmt [OF ut um prec starts_number_Nil bound])
  then have pc: "parse_component orig (int_text a @ frac_text prec v @ ustr)
          = Inr (a * 10 ^ prec + v mod 10 ^ prec, [])"
    by simp
  have "parse_loop orig (int_text a @ frac_text prec v @ ustr) 0
          = parse_loop orig [] (0 + (a * 10 ^ prec + v mod 10 ^ prec))"
    using bound by (intro parse_loop_step [OF pc int_text_append_nonempty]) simp
  then show ?thesis by (simp add: parse_loop_Nil)
qed

lemma frac_text_0: "frac_text 0 u = []"
  by (simp add: frac_text_def)

lemma int_text_0: "int_text 0 = ''0''"
  by (simp add: int_text_def fmtInt_def)

lemma Duration_String_magnitude:
  "Duration_String d =
     (if sint d < 0 then CHR ''-'' # magnitude_text (unat (- d))
      else magnitude_text (unat d))"
proof (cases "sint d < 0")
  case True
  define u where "u = unat (- d)"
  have nz: "u \<noteq> 0" using unat_magnitude_neg(2) [OF True] by (simp add: u_def)
  have "Duration_String d = CHR ''-'' # magnitude_text u"
    using True nz
    by (simp add: Duration_String_def Let_def magnitude_text_def sec_text_def
        fmtFrac_frac_text fmtInt_int_text unit_consts frac_text_0 flip: u_def)
  then show ?thesis using True by (simp add: u_def)
next
  case False
  define u where "u = unat d"
  have z: "magnitude_text 0 = ''0s''"
    by (simp add: magnitude_text_def)
  have "Duration_String d = magnitude_text u"
  proof (cases "u = 0")
    case True
    then show ?thesis using False by (simp add: Duration_String_def Let_def unit_consts z flip: u_def)
  next
    case nz: False
    then show ?thesis
      using False
      by (simp add: Duration_String_def Let_def magnitude_text_def sec_text_def
          fmtFrac_frac_text fmtInt_int_text unit_consts frac_text_0 flip: u_def)
  qed
  then show ?thesis using False by (simp add: u_def)
qed

lemma hms_sum:
  fixes u B :: nat
  shows "u div B div 60 div 60 * (3600 * B) + u div B div 60 mod 60 * (60 * B)
           + (u div B mod 60 * B + u mod B) = u"
proof -
  define u1 where "u1 = u div B"
  define u2 where "u2 = u1 div 60"
  define u3 where "u3 = u2 div 60"
  have a: "u = u1 * B + u mod B" by (simp add: u1_def)
  have b: "u1 = u2 * 60 + u1 mod 60" by (simp add: u2_def)
  have c: "u2 = u3 * 60 + u2 mod 60" by (simp add: u3_def)
  have "u3 * (3600 * B) + u2 mod 60 * (60 * B) + (u1 mod 60 * B + u mod B)
          = ((u3 * 60 + u2 mod 60) * 60 + u1 mod 60) * B + u mod B"
    by (simp add: algebra_simps)
  also have "\<dots> = (u2 * 60 + u1 mod 60) * B + u mod B" using c by simp
  also have "\<dots> = u1 * B + u mod B" using b by simp
  also have "\<dots> = u" using a by simp
  finally show ?thesis by (simp add: u1_def u2_def u3_def)
qed

lemma parse_magnitude:
  assumes "u \<le> 2 ^ 63"
  shows "parse_loop orig (magnitude_text u) 0 = Inr u"
proof -
  let ?u1 = "u div 10 ^ 9" and ?u2 = "u div 10 ^ 9 div 60" and ?u3 = "u div 10 ^ 9 div 60 div 60"
  have sum: "?u3 * (3600 * 10 ^ 9) + ?u2 mod 60 * (60 * 10 ^ 9)
               + (?u1 mod 60 * 10 ^ 9 + u mod 10 ^ 9) = u"
    by (rule hms_sum)
  consider (zero) "u = 0" | (ns) "u \<noteq> 0" "u < 10 ^ 3" | (us) "10 ^ 3 \<le> u" "u < 10 ^ 6"
    | (ms) "10 ^ 6 \<le> u" "u < 10 ^ 9" | (s) "10 ^ 9 \<le> u" "?u2 = 0"
    | (m) "10 ^ 9 \<le> u" "?u2 \<noteq> 0" "?u3 = 0" | (h) "10 ^ 9 \<le> u" "?u2 \<noteq> 0" "?u3 \<noteq> 0"
    by linarith
  then show ?thesis
  proof cases
    case zero
    have "parse_loop orig (int_text 0 @ frac_text 9 0 @ ''s'') 0 = Inr (0 * 10 ^ 9 + 0 mod 10 ^ 9)"
      by (rule parse_loop_fmt [OF unit_texts(4) unitMap_values(4)]) simp_all
    then show ?thesis using zero by (simp add: magnitude_text_def int_text_0 frac_text_def)
  next
    case ns
    have "parse_loop orig (int_text u @ frac_text 0 u @ ''ns'') 0 = Inr (u * 10 ^ 0 + u mod 10 ^ 0)"
      using assms by (intro parse_loop_fmt [OF unit_texts(1) unitMap_values(1)]) simp_all
    then show ?thesis using ns by (simp add: magnitude_text_def)
  next
    case us
    have "parse_loop orig (int_text (u div 10 ^ 3) @ frac_text 3 u @ micro_sign @ ''s'') 0
            = Inr (u div 10 ^ 3 * 10 ^ 3 + u mod 10 ^ 3)"
      using assms by (intro parse_loop_fmt [OF unit_texts(2) unitMap_values(2)]) simp_all
    then show ?thesis using us by (simp add: magnitude_text_def)
  next
    case ms
    have "parse_loop orig (int_text (u div 10 ^ 6) @ frac_text 6 u @ ''ms'') 0
            = Inr (u div 10 ^ 6 * 10 ^ 6 + u mod 10 ^ 6)"
      using assms by (intro parse_loop_fmt [OF unit_texts(3) unitMap_values(3)]) simp_all
    then show ?thesis using ms by (simp add: magnitude_text_def)
  next
    case s
    have z: "?u3 = 0" "?u2 mod 60 = 0" unfolding s(2) by simp_all
    from sum have "0 * (3600 * 10 ^ 9) + 0 * (60 * 10 ^ 9)
               + (?u1 mod 60 * 10 ^ 9 + u mod 10 ^ 9) = u"
      unfolding z .
    then have eq: "?u1 mod 60 * 10 ^ 9 + u mod 10 ^ 9 = u"
      by (simp only: mult_zero_left add_0_left)
    have b: "0 + ?u1 mod 60 * 10 ^ 9 + u mod 10 ^ 9 \<le> 2 ^ 63"
      using eq assms by linarith
    have r: "parse_loop orig (sec_text u) 0 = Inr (0 + ?u1 mod 60 * 10 ^ 9 + u mod 10 ^ 9)"
      by (rule parse_loop_sec [OF b])
    have val: "0 + ?u1 mod 60 * 10 ^ 9 + u mod 10 ^ 9 = u"
      using eq by (simp only: add_0_left)
    have mt: "magnitude_text u = sec_text u"
      using s by (simp add: magnitude_text_def)
    show ?thesis unfolding mt r val ..
  next
    case m
    from sum have "0 * (3600 * 10 ^ 9) + ?u2 mod 60 * (60 * 10 ^ 9)
               + (?u1 mod 60 * 10 ^ 9 + u mod 10 ^ 9) = u"
      unfolding m(3) .
    then have eq: "?u2 mod 60 * (60 * 10 ^ 9) + (?u1 mod 60 * 10 ^ 9 + u mod 10 ^ 9) = u"
      by (simp only: mult_zero_left add_0_left)
    have b1: "0 + ?u2 mod 60 * (60 * 10 ^ 9) \<le> 2 ^ 63" using eq assms by linarith
    have b2: "?u2 mod 60 * (60 * 10 ^ 9) + ?u1 mod 60 * 10 ^ 9 + u mod 10 ^ 9 \<le> 2 ^ 63"
      using eq assms by linarith
    have "parse_loop orig (int_text (?u2 mod 60) @ ''m'' @ sec_text u) 0
            = parse_loop orig (sec_text u) (0 + ?u2 mod 60 * (60 * 10 ^ 9))"
      unfolding sec_text_def
      by (rule parse_loop_plain [OF unit_texts(5) unitMap_values(5) _ b1]) simp
    also have "\<dots> = Inr (?u2 mod 60 * (60 * 10 ^ 9) + ?u1 mod 60 * 10 ^ 9 + u mod 10 ^ 9)"
      using parse_loop_sec [OF b2] by simp
    finally have r: "parse_loop orig (int_text (?u2 mod 60) @ ''m'' @ sec_text u) 0
        = Inr (?u2 mod 60 * (60 * 10 ^ 9) + ?u1 mod 60 * 10 ^ 9 + u mod 10 ^ 9)" .
    have val: "?u2 mod 60 * (60 * 10 ^ 9) + ?u1 mod 60 * 10 ^ 9 + u mod 10 ^ 9 = u"
      using eq by (simp only: add.assoc)
    have mt: "magnitude_text u = int_text (?u2 mod 60) @ ''m'' @ sec_text u"
      using m by (simp add: magnitude_text_def)
    show ?thesis unfolding mt r val ..
  next
    case h
    have b1: "0 + ?u3 * (3600 * 10 ^ 9) \<le> 2 ^ 63" using sum assms by linarith
    have b2: "?u3 * (3600 * 10 ^ 9) + ?u2 mod 60 * (60 * 10 ^ 9) \<le> 2 ^ 63"
      using sum assms by linarith
    have b3: "?u3 * (3600 * 10 ^ 9) + ?u2 mod 60 * (60 * 10 ^ 9) + ?u1 mod 60 * 10 ^ 9
                + u mod 10 ^ 9 \<le> 2 ^ 63"
      using sum assms by linarith
    have "parse_loop orig (int_text ?u3 @ ''h'' @ int_text (?u2 mod 60) @ ''m'' @ sec_text u) 0
            = parse_loop orig (int_text (?u2 mod 60) @ ''m'' @ sec_text u)
                (0 + ?u3 * (3600 * 10 ^ 9))"
      by (rule parse_loop_plain [OF unit_texts(6) unitMap_values(6) _ b1]) simp
    also have "\<dots> = parse_loop orig (sec_text u)
                (?u3 * (3600 * 10 ^ 9) + ?u2 mod 60 * (60 * 10 ^ 9))"
      unfolding sec_text_def add_0
      by (rule parse_loop_plain [OF unit_texts(5) unitMap_values(5) _ b2]) simp
    also have "\<dots> = Inr (?u3 * (3600 * 10 ^ 9) + ?u2 mod 60 * (60 * 10 ^ 9)
                + ?u1 mod 60 * 10 ^ 9 + u mod 10 ^ 9)"
      by (rule parse_loop_sec [OF b3])
    finally have r: "parse_loop orig
          (int_text ?u3 @ ''h'' @ int_text (?u2 mod 60) @ ''m'' @ sec_text u) 0
        = Inr (?u3 * (3600 * 10 ^ 9) + ?u2 mod 60 * (60 * 10 ^ 9)
                + ?u1 mod 60 * 10 ^ 9 + u mod 10 ^ 9)" .
    have val: "?u3 * (3600 * 10 ^ 9) + ?u2 mod 60 * (60 * 10 ^ 9)
                + ?u1 mod 60 * 10 ^ 9 + u mod 10 ^ 9 = u"
      using sum by (simp only: add.assoc)
    have mt: "magnitude_text u
        = int_text ?u3 @ ''h'' @ int_text (?u2 mod 60) @ ''m'' @ sec_text u"
      using h by (simp add: magnitude_text_def)
    show ?thesis unfolding mt r val ..
  qed
qed

lemma magnitude_text_shape:
  "\<exists>a tail. magnitude_text u = int_text a @ tail \<and> tail \<noteq> []"
proof -
  have z: "''0s'' = int_text 0 @ ''s''" by (simp add: int_text_0)
  have f: "\<exists>a tail. int_text b @ front @ c # rear = int_text a @ tail \<and> tail \<noteq> []"
    for b front c rear
    by (intro exI [of _ b] exI [of _ "front @ c # rear"]) simp
  show ?thesis
    unfolding magnitude_text_def sec_text_def z
    by (auto intro: f [of _ "[]", simplified] f simp add: micro_sign_def)
qed

lemma magnitude_text_props:
  "magnitude_text u \<noteq> []" "magnitude_text u \<noteq> ''0''"
  "hd (magnitude_text u) \<noteq> CHR ''-''" "hd (magnitude_text u) \<noteq> CHR ''+''"
proof -
  obtain a tail where eq: "magnitude_text u = int_text a @ tail" and tail: "tail \<noteq> []"
    using magnitude_text_shape by blast
  have ne: "int_text a \<noteq> []" by (rule int_text_props(2))
  show "magnitude_text u \<noteq> []" using ne by (simp add: eq)
  have "2 \<le> length (magnitude_text u)"
    using ne tail by (cases "int_text a"; cases tail) (simp_all add: eq)
  then show "magnitude_text u \<noteq> ''0''" by auto
  have "is_digit (hd (magnitude_text u))" unfolding eq by (rule int_text_hd)
  then show "hd (magnitude_text u) \<noteq> CHR ''-''" "hd (magnitude_text u) \<noteq> CHR ''+''"
    by (auto simp add: is_digit_def less_eq_char_def)
qed

text \<open>Parsing the text of a duration gives the duration back.\<close>

lemma ParseDuration_String: "ParseDuration (Duration_String d) = Inr d"
proof (cases "sint d < 0")
  case True
  define u where "u = unat (- d)"
  define m where "m = magnitude_text u"
  have orig: "Duration_String d = CHR ''-'' # m"
    using True by (simp add: Duration_String_magnitude u_def m_def)
  have u: "u \<le> 2 ^ 63" using unat_magnitude_neg(1) [OF True] by (simp add: u_def)
  have loop: "parse_loop (CHR ''-'' # m) m 0 = Inr u"
    unfolding m_def by (rule parse_magnitude [OF u])
  have m: "m \<noteq> []" "m \<noteq> ''0''" unfolding m_def by (rule magnitude_text_props)+
  have conv: "- (word_of_nat u :: 64 word) = d" by (simp add: u_def)
  show ?thesis
    unfolding orig ParseDuration_def using m by (simp add: Let_def loop conv)
next
  case False
  define u where "u = unat d"
  define m where "m = magnitude_text u"
  have orig: "Duration_String d = m"
    using False by (simp add: Duration_String_magnitude u_def m_def)
  have u1: "u \<le> 2 ^ 63 - 1" using unat_magnitude_nonneg [OF False] by (simp add: u_def)
  then have u: "u \<le> 2 ^ 63" by simp
  have loop: "parse_loop m m 0 = Inr u"
    unfolding m_def by (rule parse_magnitude [OF u])
  have m: "m \<noteq> []" "m \<noteq> ''0''" "hd m \<noteq> CHR ''-''" "hd m \<noteq> CHR ''+''"
    unfolding m_def by (rule magnitude_text_props)+
  have conv: "(word_of_nat u :: 64 word) = d" by (simp add: u_def)
  have nb: "\<not> 2 ^ 63 - 1 < u" using u1 by simp
  show ?thesis
    unfolding orig ParseDuration_def using m nb by (simp add: Let_def loop conv)
qed

lemma plain_digits: "list_all is_digit ds \<Longrightarrow> list_all plain_byte ds"
  by (simp add: list_all_iff plain_byte_def)

lemma plain_frac_text: "list_all plain_byte (frac_text prec v)"
  using frac_digits_props [of prec v False]
  by (simp add: frac_text_def plain_digits) (simp add: plain_byte_def)

lemma plain_magnitude_text: "list_all plain_byte (magnitude_text u)"
proof -
  have units: "list_all plain_byte ''s''" "list_all plain_byte ''ns''" "list_all plain_byte ''ms''"
    "list_all plain_byte ''m''" "list_all plain_byte ''h''" "list_all plain_byte micro_sign"
    "list_all plain_byte ''0s''"
    by (simp_all add: plain_byte_def micro_sign_def is_digit_def)
  have int: "list_all plain_byte (int_text a)" for a
    by (rule plain_digits [OF int_text_props(1)])
  show ?thesis
    using units
    by (simp add: magnitude_text_def sec_text_def int plain_frac_text)
qed

text \<open>
  The text of a duration consists of digits, the dot, the minus sign, the letters of the
  units and the two bytes of the micro sign: bytes that a JSON string holds as they are.
\<close>

lemma Duration_String_plain: "list_all plain_byte (Duration_String d)"
  by (simp add: Duration_String_magnitude plain_magnitude_text) (simp add: plain_byte_def)

text \<open>
  Claim C9.  \<open>MarshalJSON\<close> produces the duration's text as a JSON string, and
  \<open>UnmarshalJSON\<close> of that string gives the same duration back, for every duration;
  90 seconds are written as \<open>1m30s\<close> and read back as 90 seconds.  The JSON number
  \<open>90000000000\<close> (which is exactly a \<^verbatim>\<open>float64\<close>) is read as 90 seconds, a count of
  nanoseconds.  The JSON string \<open>notaduration\<close> is refused with an error.
\<close>

theorem Duration_codec_round_trip:
  "MarshalJSON d = JString (Duration_String d) \<and>
   UnmarshalJSON out_of_range (Inr (MarshalJSON d)) = Inr d \<and>
   MarshalJSON 90000000000 = JString ''1m30s'' \<and>
   UnmarshalJSON out_of_range (Inr (JString ''1m30s'')) = Inr 90000000000 \<and>
   float64_round 90000000000 = 90000000000 \<and>
   UnmarshalJSON out_of_range (Inr (JNumber 90000000000)) = Inr 90000000000 \<and>
   UnmarshalJSON out_of_range (Inr (JString ''notaduration''))
     = Inl (DurationParseError (InvalidDurationText ''notaduration''))"
proof -
  have trip: "UnmarshalJSON out_of_range (Inr (MarshalJSON x)) = Inr x" for x
    by (simp add: MarshalJSON_def UnmarshalJSON_def ParseDuration_String)
  have str90: "Duration_String 90000000000 = ''1m30s''" by code_simp
  have m90: "MarshalJSON 90000000000 = JString ''1m30s''"
    by (simp add: MarshalJSON_def str90)
  have again: "UnmarshalJSON out_of_range (Inr (JString ''1m30s'')) = Inr 90000000000"
    using trip [of 90000000000] by (simp only: m90)
  have exact: "float64_round 90000000000 = 90000000000"
    using float64_round_of_nat [of 90000000000] by simp
  have num: "UnmarshalJSON out_of_range (Inr (JNumber 90000000000)) = Inr 90000000000"
    by (simp add: UnmarshalJSON_def Duration_of_float64_def)
  have "ParseDuration ''notaduration'' = Inl (InvalidDurationText ''notaduration'')"
    by code_simp
  then have bad: "UnmarshalJSON out_of_range (Inr (JString ''notaduration''))
     = Inl (DurationParseError (InvalidDurationText ''notaduration''))"
    by (simp add: UnmarshalJSON_def)
  show ?thesis
    using trip [of d] m90 again exact num bad by (simp add: MarshalJSON_def)
qed

end
